theory Spec2Isabelle
  imports Complex_Main "HOL-Library.Sublist"
begin

section \<open>JavaScript strings\<close>

text \<open>
  The hook \<^verbatim>\<open>useModel\<close> of \<^verbatim>\<open>src/hooks/useModel.ts\<close> works on JavaScript strings.
  A string is modelled as a \<^typ>\<open>string\<close>, one \<^typ>\<open>char\<close> per code unit; the model
  therefore covers the code units 0 to 255. The string methods of the runtime that the
  source calls are written out below, each under the name of the method.
\<close>

definition is_space :: "char \<Rightarrow> bool" where
  \<comment> \<open>the white space and line terminators of \<^verbatim>\<open>\s\<close> and \<^verbatim>\<open>trim\<close> among the code units below 256\<close>
  "is_space c = ((of_char c :: nat) \<in> {9, 10, 11, 12, 13, 32, 160})"

definition trim :: "string \<Rightarrow> string" where
  "trim s = rev (dropWhile is_space (rev (dropWhile is_space s)))"

definition toLowerCase_char :: "char \<Rightarrow> char" where
  \<comment> \<open>the capital letters among the code units below 256; a small letter is the capital
      with the bit of value 32 set\<close>
  "toLowerCase_char c =
     (let n = (of_char c :: nat)
      in if (65 \<le> n \<and> n \<le> 90) \<or> (192 \<le> n \<and> n \<le> 222 \<and> n \<noteq> 215)
         then (case c of Char b0 b1 b2 b3 b4 b5 b6 b7 \<Rightarrow> Char b0 b1 b2 b3 b4 True b6 b7)
         else c)"

definition toLowerCase :: "string \<Rightarrow> string" where
  "toLowerCase s = map toLowerCase_char s"

fun split_first :: "string \<Rightarrow> string \<Rightarrow> (string \<times> string) option" where
  \<comment> \<open>the text before and after the first occurrence of \<open>pat\<close> in the string\<close>
  "split_first pat [] = (if pat = [] then Some ([], []) else None)"
| "split_first pat (c # s) =
     (if prefix pat (c # s) then Some ([], drop (length pat) (c # s))
      else (case split_first pat s of
              None \<Rightarrow> None
            | Some (b, a) \<Rightarrow> Some (c # b, a)))"

definition js_includes :: "string \<Rightarrow> string \<Rightarrow> bool" where
  \<comment> \<open>\<^verbatim>\<open>s.includes(t)\<close>\<close>
  "js_includes s t = (split_first t s \<noteq> None)"

definition startsWith :: "string \<Rightarrow> string \<Rightarrow> bool" where
  \<comment> \<open>\<^verbatim>\<open>s.startsWith(t)\<close>\<close>
  "startsWith s t = prefix t s"

fun split_on :: "char \<Rightarrow> string \<Rightarrow> string list" where
  \<comment> \<open>\<^verbatim>\<open>s.split(sep)\<close> for a separator of one character\<close>
  "split_on sep [] = [[]]"
| "split_on sep (c # s) =
     (if c = sep then [] # split_on sep s
      else (case split_on sep s of
              [] \<Rightarrow> [[c]]
            | p # ps \<Rightarrow> (c # p) # ps))"

fun expand :: "string \<Rightarrow> string \<Rightarrow> string \<Rightarrow> string \<Rightarrow> string" where
  \<comment> \<open>the replacement text of \<^verbatim>\<open>replace\<close>: \<^verbatim>\<open>$$\<close>, \<^verbatim>\<open>$&\<close>, \<^verbatim>\<open>$`\<close> and \<^verbatim>\<open>$'\<close> are
      patterns of the runtime; with a string pattern there is no capture group, so
      every other \<^verbatim>\<open>$\<close> stands for itself\<close>
  "expand matched pre post [] = []"
| "expand matched pre post [c] = [c]"
| "expand matched pre post (c # d # r) =
     (if c = CHR ''$'' then
        (if d = CHR ''$'' then CHR ''$'' # expand matched pre post r
         else if d = CHR ''&'' then matched @ expand matched pre post r
         else if d = CHR 0x60 then pre @ expand matched pre post r
         else if d = CHR 0x27 then post @ expand matched pre post r
         else c # expand matched pre post (d # r))
      else c # expand matched pre post (d # r))"

definition replace :: "string \<Rightarrow> string \<Rightarrow> string \<Rightarrow> string" where
  \<comment> \<open>\<^verbatim>\<open>s.replace(pat, rep)\<close> with a string pattern: the first occurrence only\<close>
  "replace s pat rep =
     (case split_first pat s of
        None \<Rightarrow> s
      | Some (b, a) \<Rightarrow> b @ expand pat b a rep @ a)"

fun collapse_from :: "bool \<Rightarrow> string \<Rightarrow> string" where
  \<comment> \<open>the flag says that the previous character was white space, already replaced\<close>
  "collapse_from in_run [] = []"
| "collapse_from in_run (c # s) =
     (if is_space c then (if in_run then collapse_from True s else CHR '' '' # collapse_from True s)
      else c # collapse_from False s)"

definition collapse_space :: "string \<Rightarrow> string" where
  \<comment> \<open>\<^verbatim>\<open>s.replaceAll(/[\n\r\s]+/g, " ")\<close>: every maximal run of white space becomes one space\<close>
  "collapse_space s = collapse_from False s"

fun escape_quotes :: "string \<Rightarrow> string" where
  \<comment> \<open>\<^verbatim>\<open>s.replaceAll('"', '\\"')\<close>\<close>
  "escape_quotes [] = []"
| "escape_quotes (c # s) =
     (if c = CHR 0x22 then CHR 0x5C # CHR 0x22 # escape_quotes s
      else c # escape_quotes s)"

definition sanitize :: "string \<Rightarrow> string" where
  "sanitize s = escape_quotes (collapse_space s)"

lemma split_first_sound:
  "split_first pat s = Some (b, a) \<Longrightarrow> s = b @ pat @ a"
proof (induction s arbitrary: b)
  case Nil
  then show ?case by (simp split: if_splits)
next
  case (Cons c s)
  show ?case
  proof (cases "prefix pat (c # s)")
    case True
    with Cons.prems have "b = []" "a = drop (length pat) (c # s)" by simp_all
    moreover from True have "c # s = pat @ drop (length pat) (c # s)"
      by (metis append_eq_conv_conj prefixE)
    ultimately show ?thesis by simp
  next
    case False
    with Cons.prems obtain b' where "split_first pat s = Some (b', a)" "b = c # b'"
      by (auto split: option.splits)
    with Cons.IH [of b'] show ?thesis by simp
  qed
qed

lemma split_first_prefix:
  "prefix pat s \<Longrightarrow> split_first pat s = Some ([], drop (length pat) s)"
  by (cases s) auto

lemma split_first_complete:
  "s = b @ pat @ a \<Longrightarrow> split_first pat s \<noteq> None"
proof (induction b arbitrary: s)
  case Nil
  then have "prefix pat s" by simp
  then show ?case by (simp add: split_first_prefix)
next
  case (Cons x b)
  then obtain s' where s: "s = x # s'" "s' = b @ pat @ a" by simp
  from Cons.IH [OF s(2)] show ?case unfolding s(1) by (auto split: option.splits)
qed

lemma js_includes_iff: "js_includes s t \<longleftrightarrow> (\<exists>b a. s = b @ t @ a)"
proof
  assume "js_includes s t"
  then obtain b a where "split_first t s = Some (b, a)"
    by (auto simp: js_includes_def)
  then show "\<exists>b a. s = b @ t @ a" using split_first_sound by blast
next
  assume "\<exists>b a. s = b @ t @ a"
  then show "js_includes s t" using split_first_complete by (auto simp: js_includes_def)
qed


section \<open>Decoded JSON values and the runtime\<close>

text \<open>
  A value of the runtime, as far as the hook meets one: the values \<^verbatim>\<open>JSON.parse\<close> can
  return, \<^verbatim>\<open>undefined\<close> and \<^verbatim>\<open>NaN\<close>, and \<open>JNative\<close> for a member that a value inherits
  from its prototype (a method such as \<^verbatim>\<open>toString\<close>), named by its path. A number is
  the rational it denotes; an object is the list of its own properties.
\<close>

datatype jsval =
    JUndefined
  | JNull
  | JBool bool
  | JNum rat
  | JNaN
  | JStr string
  | JArr "jsval list"
  | JObj "(string \<times> jsval) list"
  | JNative string

datatype error = SyntaxError | TypeError

text \<open>
  The functions of the runtime that the source calls and that are no part of the
  repository are parameters of the model:
  \<^item> \<open>JSON_parse\<close> is \<^verbatim>\<open>JSON.parse\<close>, \<open>None\<close> when it throws a \<^verbatim>\<open>SyntaxError\<close>;
  \<^item> \<open>JSON_stringify\<close> is \<^verbatim>\<open>JSON.stringify\<close>;
  \<^item> \<open>inherited v k\<close> is what \<^verbatim>\<open>v[k]\<close> finds on the prototype chain of \<open>v\<close> when \<open>k\<close>
    is no own property of \<open>v\<close>: \<open>Inr JUndefined\<close> when there is no such member, the
    value of the member otherwise, and \<open>Inl e\<close> when the member is an accessor whose
    read raises \<open>e\<close>;
  \<^item> \<open>to_text\<close> is the text of a value that is no string, in \<^verbatim>\<open>v.toString()\<close> and in
    \<^verbatim>\<open>text + v\<close>, \<open>None\<close> when the conversion throws;
  \<^item> \<open>parseFloat\<close> is \<^verbatim>\<open>parseFloat\<close>, \<open>None\<close> for \<^verbatim>\<open>NaN\<close>.
  Every theorem below holds for every such runtime.
\<close>

record runtime =
  JSON_parse :: "string \<Rightarrow> jsval option"
  JSON_stringify :: "jsval \<Rightarrow> string"
  inherited :: "jsval \<Rightarrow> string \<Rightarrow> error + jsval"
  to_text :: "jsval \<Rightarrow> string option"
  parseFloat :: "string \<Rightarrow> rat option"

fun truthy :: "jsval \<Rightarrow> bool" where
  "truthy JUndefined = False"
| "truthy JNull = False"
| "truthy (JBool b) = b"
| "truthy (JNum r) = (r \<noteq> 0)"
| "truthy JNaN = False"
| "truthy (JStr s) = (s \<noteq> [])"
| "truthy (JArr xs) = True"
| "truthy (JObj kvs) = True"
| "truthy (JNative n) = True"

fun typeof_object :: "jsval \<Rightarrow> bool" where
  \<comment> \<open>\<^verbatim>\<open>typeof v == "object"\<close>, which holds of \<^verbatim>\<open>null\<close> too\<close>
  "typeof_object JNull = True"
| "typeof_object (JArr xs) = True"
| "typeof_object (JObj kvs) = True"
| "typeof_object v = False"

definition is_digit :: "char \<Rightarrow> bool" where
  "is_digit c = (48 \<le> (of_char c :: nat) \<and> (of_char c :: nat) \<le> 57)"

fun decimal :: "nat \<Rightarrow> string \<Rightarrow> nat" where
  "decimal acc [] = acc"
| "decimal acc (c # s) = decimal (10 * acc + ((of_char c :: nat) - 48)) s"

definition array_index :: "string \<Rightarrow> nat option" where
  \<comment> \<open>a key is an index when it is the decimal numeral of a number, with no leading zero\<close>
  "array_index k =
     (if k \<noteq> [] \<and> list_all is_digit k \<and> (k = ''0'' \<or> hd k \<noteq> CHR ''0'')
      then Some (decimal 0 k) else None)"

fun own_property :: "jsval \<Rightarrow> string \<Rightarrow> jsval option" where
  "own_property (JObj kvs) k = map_of kvs k"
| "own_property (JArr xs) k =
     (if k = ''length'' then Some (JNum (of_nat (length xs)))
      else (case array_index k of
              None \<Rightarrow> None
            | Some i \<Rightarrow> if i < length xs then Some (xs ! i) else None))"
| "own_property (JStr s) k =
     (if k = ''length'' then Some (JNum (of_nat (length s)))
      else (case array_index k of
              None \<Rightarrow> None
            | Some i \<Rightarrow> if i < length s then Some (JStr [s ! i]) else None))"
| "own_property v k = None"

definition member :: "runtime \<Rightarrow> jsval \<Rightarrow> string \<Rightarrow> error + jsval" where
  \<comment> \<open>\<^verbatim>\<open>v[k]\<close>: a \<^verbatim>\<open>TypeError\<close> on \<^verbatim>\<open>null\<close> and \<^verbatim>\<open>undefined\<close>; an own property
      is read as it is, any other key goes to the prototype chain\<close>
  "member rt v k =
     (case v of
        JNull \<Rightarrow> Inl TypeError
      | JUndefined \<Rightarrow> Inl TypeError
      | _ \<Rightarrow> (case own_property v k of
                Some w \<Rightarrow> Inr w
              | None \<Rightarrow> inherited rt v k))"

section \<open>The key path extractor \<^verbatim>\<open>get\<close>\<close>

text \<open>
  \<^verbatim>\<open>item.split(/\[([^}]+)\]/g)\<close>: a match starts at an opening bracket, takes as many
  characters other than a closing brace as it can, and gives them back until a closing
  bracket follows; the text between is the captured key, which \<^verbatim>\<open>split\<close> puts between
  the pieces.
\<close>

definition last_close :: "string \<Rightarrow> nat option" where
  \<comment> \<open>the last position, not the first one, of a closing bracket in the run\<close>
  "last_close run =
     (case filter (\<lambda>j. run ! j = CHR '']'') (rev [1..<length run]) of
        [] \<Rightarrow> None
      | j # js \<Rightarrow> Some j)"

definition bracket_at :: "string \<Rightarrow> (string \<times> string) option" where
  \<comment> \<open>the captured key and the text after the match, for a match at the head\<close>
  "bracket_at s =
     (case s of
        [] \<Rightarrow> None
      | c # r \<Rightarrow>
          if c = CHR ''['' then
            (case last_close (takeWhile (\<lambda>d. d \<noteq> CHR ''}'') r) of
               None \<Rightarrow> None
             | Some j \<Rightarrow> Some (take j r, drop (Suc j) r))
          else None)"

lemma bracket_at_shorter:
  "bracket_at s = Some (cap, rest) \<Longrightarrow> length rest < length s"
  by (auto simp: bracket_at_def split: list.splits if_splits option.splits)

function split_brackets :: "string \<Rightarrow> string \<Rightarrow> string list" where
  \<comment> \<open>the first argument is the piece read so far\<close>
  "split_brackets piece [] = [piece]"
| "split_brackets piece (c # s) =
     (case bracket_at (c # s) of
        Some (cap, rest) \<Rightarrow> piece # cap # split_brackets [] rest
      | None \<Rightarrow> split_brackets (piece @ [c]) s)"
  by pat_completeness auto
termination
  by (relation "measure (\<lambda>(piece, s). length s)") (auto dest: bracket_at_shorter)

definition path_keys :: "string \<Rightarrow> string list" where
  \<comment> \<open>lines 85 to 97: the array \<open>path\<close>\<close>
  "path_keys pathString =
     concat (map (\<lambda>item. filter (\<lambda>key. length key > 0) (split_brackets [] item))
                 (split_on (CHR ''.'') (trim pathString)))"

fun walk :: "runtime \<Rightarrow> jsval \<Rightarrow> string list \<Rightarrow> jsval \<Rightarrow> error + jsval" where
  \<comment> \<open>lines 101 to 104: the loop over \<open>path\<close>\<close>
  "walk rt current [] def = Inr current"
| "walk rt current (k # path) def =
     (case member rt current k of
        Inl e \<Rightarrow> Inl e
      | Inr v \<Rightarrow> if \<not> truthy v then Inr def else walk rt v path def)"

definition get :: "runtime \<Rightarrow> jsval \<Rightarrow> string \<Rightarrow> jsval \<Rightarrow> error + jsval" where
  \<comment> \<open>lines 84 to 107; \<open>def\<close> is \<open>JUndefined\<close> when the caller gives none\<close>
  "get rt obj pathString def =
     (if typeof_object obj then walk rt obj (path_keys pathString) def else Inr obj)"

text \<open>
  Reading the members of a value one key after the other, as \<^verbatim>\<open>obj[k1][k2]...\<close> does,
  with no test in between: the value that a list of keys reaches, \<open>None\<close> when a read
  on the way raises.
\<close>

fun follow :: "runtime \<Rightarrow> jsval \<Rightarrow> string list \<Rightarrow> jsval option" where
  "follow rt v [] = Some v"
| "follow rt v (k # ks) =
     (case member rt v k of
        Inl e \<Rightarrow> None
      | Inr w \<Rightarrow> follow rt w ks)"


subsection \<open>The paths of the specification\<close>

text \<open>
  The specification describes a path as segments separated by dots, a segment being
  a name with optional sub-segments enclosed in brackets, as in \<^verbatim>\<open>choices[0].text\<close>.
  The definitions of this subsection follow these words and not the source: the text
  of a list of segments, and the keys that such a path names, in their order.
\<close>

type_synonym segment = "string \<times> string list"

definition segment_text :: "segment \<Rightarrow> string" where
  "segment_text sg = fst sg @ concat (map (\<lambda>sub. ''['' @ sub @ '']'') (snd sg))"

fun join_dots :: "string list \<Rightarrow> string" where
  "join_dots [] = []"
| "join_dots [x] = x"
| "join_dots (x # y # ys) = x @ ''.'' @ join_dots (y # ys)"

definition path_text :: "segment list \<Rightarrow> string" where
  "path_text sgs = join_dots (map segment_text sgs)"

definition segment_keys :: "segment \<Rightarrow> string list" where
  "segment_keys sg = (if fst sg = [] then [] else [fst sg]) @ snd sg"

definition spec_keys :: "segment list \<Rightarrow> string list" where
  "spec_keys sgs = concat (map segment_keys sgs)"

definition syntax_char :: "char \<Rightarrow> bool" where
  \<comment> \<open>a character of a name or of a sub-segment: none of the three delimiters\<close>
  "syntax_char c = (c \<noteq> CHR ''.'' \<and> c \<noteq> CHR ''['' \<and> c \<noteq> CHR '']'')"

definition segment_ok :: "segment \<Rightarrow> bool" where
  \<comment> \<open>a segment is not empty, and neither is a sub-segment\<close>
  "segment_ok sg =
     (list_all syntax_char (fst sg)
      \<and> list_all (\<lambda>sub. sub \<noteq> [] \<and> list_all syntax_char sub) (snd sg)
      \<and> (fst sg \<noteq> [] \<or> snd sg \<noteq> []))"

definition single_bracket :: "segment \<Rightarrow> bool" where
  \<comment> \<open>at most one sub-segment, with no closing brace in it\<close>
  "single_bracket sg =
     (length (snd sg) \<le> 1 \<and> list_all (\<lambda>sub. CHR ''}'' \<notin> set sub) (snd sg))"

subsection \<open>A runtime for the examples\<close>

text \<open>
  The closed examples below need one runtime. This one knows the texts that the examples
  parse and print, and answers on them as the runtime of the source does; no value
  inherits a member of the names that the examples use.
\<close>

definition example_parse :: "string \<Rightarrow> jsval option" where
  "example_parse s =
     (if s = ''{}'' then Some (JObj [])
      else if s = ''{\"prompt\": \"hi\"}'' then Some (JObj [(''prompt'', JStr ''hi'')])
      else if s = ''{\"prompt\": \"bye\"}'' then Some (JObj [(''prompt'', JStr ''bye'')])
      else if s = ''{\"prompt\": \"\"}'' then Some (JObj [(''prompt'', JStr [])])
      else if s = '' {\"text\": \"Hel\"}'' then Some (JObj [(''text'', JStr ''Hel'')])
      else if s = '' {\"text\": \"lo\"}'' then Some (JObj [(''text'', JStr ''lo'')])
      else None)"

definition example_stringify :: "jsval \<Rightarrow> string" where
  "example_stringify v =
     (if v = JObj [] then ''{}''
      else if v = JObj [(''prompt'', JStr ''hi'')] then ''{\"prompt\":\"hi\"}''
      else if v = JObj [(''prompt'', JStr ''bye'')] then ''{\"prompt\":\"bye\"}''
      else if v = JObj [(''prompt'', JStr [])] then ''{\"prompt\":\"\"}''
      else [])"

definition example_runtime :: runtime where
  "example_runtime =
     \<lparr>JSON_parse = example_parse,
      JSON_stringify = example_stringify,
      inherited = (\<lambda>v k. Inr JUndefined),
      to_text = (\<lambda>v. None),
      parseFloat = (\<lambda>s. if s = ''1.0'' then Some 1 else None)\<rparr>"

subsection \<open>Properties of \<^verbatim>\<open>get\<close>\<close>

lemma truthy_defined: "truthy v \<Longrightarrow> v \<noteq> JNull \<and> v \<noteq> JUndefined"
  by (cases v) auto

lemma member_raises:
  "member rt v k = Inl e \<Longrightarrow> v \<noteq> JNull \<Longrightarrow> v \<noteq> JUndefined
     \<Longrightarrow> own_property v k = None \<and> inherited rt v k = Inl e"
  by (cases v; cases "own_property v k") (simp_all add: member_def)

lemma walk_raises:
  "walk rt current ks def = Inl e \<Longrightarrow> current \<noteq> JNull \<Longrightarrow> current \<noteq> JUndefined
     \<Longrightarrow> \<exists>i cur. i < length ks \<and> follow rt current (take i ks) = Some cur
           \<and> own_property cur (ks ! i) = None \<and> inherited rt cur (ks ! i) = Inl e"
proof (induction ks arbitrary: current)
  case Nil
  then show ?case by simp
next
  case (Cons k ks)
  show ?case
  proof (cases "member rt current k")
    case (Inl e')
    with Cons.prems(1) have "e' = e" by simp
    with Inl Cons.prems(2,3) have "own_property current k = None \<and> inherited rt current k = Inl e"
      by (simp add: member_raises)
    then have "0 < length (k # ks) \<and> follow rt current (take 0 (k # ks)) = Some current
        \<and> own_property current ((k # ks) ! 0) = None
        \<and> inherited rt current ((k # ks) ! 0) = Inl e"
      by simp
    then show ?thesis by blast
  next
    case (Inr w)
    with Cons.prems(1) have tw: "truthy w" and rest: "walk rt w ks def = Inl e"
      by (auto split: if_splits)
    from tw truthy_defined have "w \<noteq> JNull" "w \<noteq> JUndefined" by blast+
    from Cons.IH [OF rest this] obtain i cur where i: "i < length ks"
      and f: "follow rt w (take i ks) = Some cur"
      and o: "own_property cur (ks ! i) = None" "inherited rt cur (ks ! i) = Inl e"
      by blast
    from i f o Inr have "Suc i < length (k # ks)
        \<and> follow rt current (take (Suc i) (k # ks)) = Some cur
        \<and> own_property cur ((k # ks) ! Suc i) = None
        \<and> inherited rt cur ((k # ks) ! Suc i) = Inl e"
      by simp
    then show ?thesis by blast
  qed
qed

lemma walk_falsy:
  "i < length ks \<Longrightarrow> follow rt current (take (Suc i) ks) = Some v \<Longrightarrow> \<not> truthy v
     \<Longrightarrow> walk rt current ks def = Inr def"
proof (induction ks arbitrary: current i)
  case Nil
  then show ?case by simp
next
  case (Cons k ks)
  from Cons.prems(2) obtain w where w: "member rt current k = Inr w"
    and rest: "follow rt w (take i ks) = Some v"
    by (auto split: sum.splits)
  show ?case
  proof (cases "truthy w")
    case False
    with w show ?thesis by simp
  next
    case True
    show ?thesis
    proof (cases i)
      case 0
      with rest have "w = v" by simp
      with True Cons.prems(3) show ?thesis by simp
    next
      case (Suc j)
      with Cons.prems(1) rest have "j < length ks" "follow rt w (take (Suc j) ks) = Some v"
        by simp_all
      from Cons.IH [OF this Cons.prems(3)] w True show ?thesis by simp
    qed
  qed
qed

lemma walk_truthy:
  "follow rt current ks = Some v
     \<Longrightarrow> (\<And>i w. i < length ks \<Longrightarrow> follow rt current (take (Suc i) ks) = Some w \<Longrightarrow> truthy w)
     \<Longrightarrow> walk rt current ks def = Inr v"
proof (induction ks arbitrary: current)
  case Nil
  then show ?case by simp
next
  case (Cons k ks)
  from Cons.prems(1) obtain w where w: "member rt current k = Inr w"
    and rest: "follow rt w ks = Some v"
    by (auto split: sum.splits)
  from w have "follow rt current (take (Suc 0) (k # ks)) = Some w" by simp
  with Cons.prems(2) [of 0 w] have tw: "truthy w" by simp
  have "walk rt w ks def = Inr v"
  proof (rule Cons.IH [OF rest])
    fix i u
    assume "i < length ks" "follow rt w (take (Suc i) ks) = Some u"
    with w have "Suc i < length (k # ks)"
      "follow rt current (take (Suc (Suc i)) (k # ks)) = Some u" by simp_all
    then show "truthy u" by (rule Cons.prems(2))
  qed
  with w tw show ?case by simp
qed

lemma follow_append:
  "follow rt v (ks @ ks') = (case follow rt v ks of None \<Rightarrow> None | Some w \<Rightarrow> follow rt w ks')"
  by (induction ks arbitrary: v) (auto split: sum.splits)

lemma member_own:
  "own_property v k = Some w \<Longrightarrow> member rt v k = Inr w"
  by (cases v) (auto simp: member_def)

lemma member_missing:
  "own_property v k = None \<Longrightarrow> v \<noteq> JNull \<Longrightarrow> v \<noteq> JUndefined
     \<Longrightarrow> member rt v k = inherited rt v k"
  by (cases v) (auto simp: member_def)

lemma falsy_values:
  "\<not> truthy v \<longleftrightarrow> v \<in> {JUndefined, JNull, JBool False, JNum 0, JNaN, JStr []}"
  by (cases v) auto

subsection \<open>The keys of a path of the specification\<close>

lemma split_on_plain: "sep \<notin> set x \<Longrightarrow> split_on sep x = [x]"
  by (induction x) auto

lemma split_on_append:
  "sep \<notin> set x \<Longrightarrow> split_on sep (x @ sep # rest) = x # split_on sep rest"
  by (induction x) auto

lemma split_on_join:
  "xs \<noteq> [] \<Longrightarrow> list_all (\<lambda>x. CHR ''.'' \<notin> set x) xs
     \<Longrightarrow> split_on (CHR ''.'') (join_dots xs) = xs"
proof (induction xs rule: join_dots.induct)
  case 1
  then show ?case by simp
next
  case (2 x)
  then show ?case by (simp add: split_on_plain)
next
  case (3 x y ys)
  then have "split_on (CHR ''.'') (join_dots (y # ys)) = y # ys" by simp
  moreover from 3 have "CHR ''.'' \<notin> set x" by simp
  ultimately show ?case by (simp add: split_on_append)
qed

lemma bracket_at_other: "c \<noteq> CHR ''['' \<Longrightarrow> bracket_at (c # s) = None"
  by (simp add: bracket_at_def)

lemma split_brackets_plain:
  "CHR ''['' \<notin> set s \<Longrightarrow> split_brackets piece (s @ t) = split_brackets (piece @ s) t"
proof (induction s arbitrary: piece)
  case Nil
  then show ?case by simp
next
  case (Cons c s)
  from Cons.prems have "c \<noteq> CHR ''[''" by auto
  then have "bracket_at (c # s @ t) = None" by (rule bracket_at_other)
  with Cons show ?case by simp
qed

lemma last_close_end: "sub \<noteq> [] \<Longrightarrow> last_close (sub @ '']'') = Some (length sub)"
proof -
  assume "sub \<noteq> []"
  then have "[1..<Suc (length sub)] = [1..<length sub] @ [length sub]"
    by (cases sub) simp_all
  then have "rev [1..<length (sub @ '']'')] = length sub # rev [1..<length sub]"
    by simp
  then show ?thesis
    by (simp add: last_close_def nth_append)
qed

lemma bracket_at_sub:
  assumes "sub \<noteq> []" and "CHR ''}'' \<notin> set sub"
  shows "bracket_at (CHR ''['' # sub @ '']'') = Some (sub, [])"
proof -
  from assms(2) have "takeWhile (\<lambda>d. d \<noteq> CHR ''}'') (sub @ '']'') = sub @ '']''"
    by (auto simp: takeWhile_eq_all_conv)
  with last_close_end [OF assms(1)] show ?thesis
    by (simp add: bracket_at_def)
qed

lemma segment_keys_of_text:
  assumes "segment_ok sg" and "single_bracket sg"
  shows "filter (\<lambda>key. key \<noteq> []) (split_brackets [] (segment_text sg)) = segment_keys sg"
proof -
  obtain nm subs where sg: "sg = (nm, subs)" by (cases sg)
  from assms(1) sg have nm: "CHR ''['' \<notin> set nm"
    by (auto simp: segment_ok_def syntax_char_def list_all_iff)
  show ?thesis
  proof (cases subs)
    case Nil
    from nm have "split_brackets [] (nm @ []) = split_brackets ([] @ nm) []"
      by (rule split_brackets_plain)
    with sg Nil show ?thesis by (simp add: segment_text_def segment_keys_def)
  next
    case (Cons sub rest)
    with assms(2) sg have rest: "rest = []" and brace: "CHR ''}'' \<notin> set sub"
      by (simp_all add: single_bracket_def)
    from assms(1) sg Cons have ne: "sub \<noteq> []" by (simp add: segment_ok_def)
    from nm have "split_brackets [] (nm @ CHR ''['' # sub @ '']'')
        = split_brackets ([] @ nm) (CHR ''['' # sub @ '']'')"
      by (rule split_brackets_plain)
    with bracket_at_sub [OF ne brace]
    have "split_brackets [] (nm @ CHR ''['' # sub @ '']'') = [nm, sub, []]"
      by simp
    with sg Cons rest ne show ?thesis by (simp add: segment_text_def segment_keys_def)
  qed
qed

lemma segment_text_no_dot:
  assumes "segment_ok sg"
  shows "CHR ''.'' \<notin> set (segment_text sg)"
  using assms by (auto simp: segment_ok_def segment_text_def syntax_char_def list_all_iff)

lemma path_keys_of_text:
  assumes ok: "list_all segment_ok sgs" and one: "list_all single_bracket sgs"
    and tr: "trim pathString = path_text sgs"
  shows "path_keys pathString = spec_keys sgs"
proof (cases sgs)
  case Nil
  with tr show ?thesis by (simp add: path_keys_def path_text_def spec_keys_def)
next
  case (Cons sg rest)
  from ok have "list_all (\<lambda>x. CHR ''.'' \<notin> set x) (map segment_text sgs)"
    by (simp add: list_all_iff segment_text_no_dot)
  with Cons have items: "split_on (CHR ''.'') (path_text sgs) = map segment_text sgs"
    unfolding path_text_def by (intro split_on_join) simp_all
  have "path_keys pathString
      = concat (map (\<lambda>sg. filter (\<lambda>key. key \<noteq> []) (split_brackets [] (segment_text sg))) sgs)"
    by (simp add: path_keys_def tr items comp_def)
  also from ok one have "\<dots> = concat (map segment_keys sgs)"
    by (simp add: list_all_iff segment_keys_of_text cong: map_cong)
  finally show ?thesis by (simp add: spec_keys_def)
qed

lemma get_choices_example:
  assumes "inherited rt (JArr []) ''0'' = Inr JUndefined"
  shows "get rt (JObj [(''choices'', JArr [])]) ''choices[0].text'' def = Inr def"
proof -
  have keys: "path_keys ''choices[0].text'' = [''choices'', ''0'', ''text'']"
    by code_simp
  have idx: "array_index ''0'' = Some 0"
    by code_simp
  have "member rt (JObj [(''choices'', JArr [])]) ''choices'' = Inr (JArr [])"
    by (simp add: member_def)
  moreover from assms idx have "member rt (JArr []) ''0'' = Inr JUndefined"
    by (simp add: member_def)
  ultimately show ?thesis
    by (simp add: get_def keys)
qed

text \<open>
  \<^bold>\<open>C10.\<close> A value that is present in the document but falsy counts as a missing
  segment. When the keys of the path lead, through the members of an object root, to
  a value \<open>cur\<close> that has the next key \<open>k\<close> as a property of its own, and the value of
  that property is falsy (the empty string, 0, \<^verbatim>\<open>false\<close> or \<^verbatim>\<open>null\<close>), then \<^verbatim>\<open>get\<close>
  returns the default of the caller: line 102 tests the value, not the presence of
  the key.
\<close>

theorem get_present_falsy_is_default:
  assumes "typeof_object obj"
    and "path_keys pathString = ks1 @ k # ks2"
    and "follow rt obj ks1 = Some cur"
    and "own_property cur k = Some v"
    and "v = JStr [] \<or> v = JNum 0 \<or> v = JBool False \<or> v = JNull"
  shows "get rt obj pathString def = Inr def"
proof -
  from assms(4) have "member rt cur k = Inr v" by (rule member_own)
  with assms(3) have "follow rt obj (ks1 @ [k]) = Some v"
    by (simp add: follow_append)
  then have reached: "follow rt obj (take (Suc (length ks1)) (ks1 @ k # ks2)) = Some v"
    by simp
  have inside: "length ks1 < length (ks1 @ k # ks2)" by simp
  from assms(5) have "\<not> truthy v" by auto
  with inside reached have "walk rt obj (ks1 @ k # ks2) def = Inr def"
    by (rule walk_falsy)
  with assms(1,2) show ?thesis by (simp add: get_def)
qed

theorem get_present_falsy_is_default_witness:
  "typeof_object (JObj [(''usage'', JObj [(''count'', JNum 0)])])
   \<and> path_keys ''usage.count.total'' = [''usage''] @ ''count'' # [''total'']
   \<and> follow example_runtime (JObj [(''usage'', JObj [(''count'', JNum 0)])]) [''usage'']
       = Some (JObj [(''count'', JNum 0)])
   \<and> own_property (JObj [(''count'', JNum 0)]) ''count'' = Some (JNum 0)
   \<and> get example_runtime (JObj [(''usage'', JObj [(''count'', JNum 0)])])
         ''usage.count.total'' (JStr ''none'') = Inr (JStr ''none'')"
proof -
  have h1: "typeof_object (JObj [(''usage'', JObj [(''count'', JNum 0)])])" by simp
  have h2: "path_keys ''usage.count.total'' = [''usage''] @ ''count'' # [''total'']"
    by code_simp
  have h3: "follow example_runtime (JObj [(''usage'', JObj [(''count'', JNum 0)])]) [''usage'']
      = Some (JObj [(''count'', JNum 0)])"
    by (simp add: member_def)
  have h4: "own_property (JObj [(''count'', JNum 0)]) ''count'' = Some (JNum 0)" by simp
  have h5: "JNum 0 = JStr [] \<or> JNum 0 = JNum 0 \<or> JNum 0 = JBool False \<or> JNum 0 = JNull"
    by simp
  from get_present_falsy_is_default [OF h1 h2 h3 h4 h5, of "JStr ''none''"] h1 h2 h3 h4
  show ?thesis by blast
qed

text \<open>
  \<^bold>\<open>C4\<close>, as the code has it. A path of the specification is here a path string that,
  white space at its ends apart, is the text of a list of segments (names and
  sub-segments without a dot or a bracket, no empty segment or sub-segment), each
  with at most one sub-segment in brackets and no closing brace in it. For every
  decoded value, default and runtime:
  \<^item> a root that is no object (a string, a number, a truth value) is returned itself,
    whatever the path and the default;
  \<^item> the keys that \<^verbatim>\<open>get\<close> reads from a path of the specification are the names and
    sub-segments of the path, in their order;
  \<^item> for an object root and a path of the specification, when every value on the way
    along the keys is truthy, \<^verbatim>\<open>get\<close> returns the value that the path reaches;
  \<^item> for an object root and a path of the specification, when some key reads a value
    that is missing (\<^verbatim>\<open>undefined\<close>) or otherwise falsy, \<^verbatim>\<open>get\<close> returns the default;
  \<^item> for every path string, malformed ones too, a call of \<^verbatim>\<open>get\<close> that raises has a
    \<^verbatim>\<open>null\<close> root, or it has read, on a value that the keys before it reach, a key
    that is no own property of the value and names an inherited member whose read
    raises that error;
  \<^item> the path \<^verbatim>\<open>choices[0].text\<close> on \<^verbatim>\<open>{"choices":[]}\<close> yields the default.
  \<^verbatim>\<open>get\<close> is a function of its arguments, so it is deterministic.
\<close>

theorem get_contract:
  "(\<not> typeof_object obj \<longrightarrow> get rt obj pathString def = Inr obj)
   \<and> (list_all segment_ok sgs \<and> list_all single_bracket sgs
        \<and> trim pathString = path_text sgs
        \<longrightarrow> path_keys pathString = spec_keys sgs)
   \<and> (typeof_object obj \<and> list_all segment_ok sgs \<and> list_all single_bracket sgs
        \<and> trim pathString = path_text sgs
        \<and> follow rt obj (spec_keys sgs) = Some v
        \<and> (\<forall>i w. i < length (spec_keys sgs)
               \<longrightarrow> follow rt obj (take (Suc i) (spec_keys sgs)) = Some w \<longrightarrow> truthy w)
        \<longrightarrow> get rt obj pathString def = Inr v)
   \<and> (typeof_object obj \<and> list_all segment_ok sgs \<and> list_all single_bracket sgs
        \<and> trim pathString = path_text sgs
        \<and> j < length (spec_keys sgs)
        \<and> follow rt obj (take (Suc j) (spec_keys sgs)) = Some u \<and> \<not> truthy u
        \<longrightarrow> get rt obj pathString def = Inr def)
   \<and> (get rt obj pathString def = Inl e
        \<longrightarrow> obj = JNull
            \<or> (\<exists>i cur. i < length (path_keys pathString)
                  \<and> follow rt obj (take i (path_keys pathString)) = Some cur
                  \<and> own_property cur (path_keys pathString ! i) = None
                  \<and> inherited rt cur (path_keys pathString ! i) = Inl e))
   \<and> (inherited rt (JArr []) ''0'' = Inr JUndefined
        \<longrightarrow> get rt (JObj [(''choices'', JArr [])]) ''choices[0].text'' def = Inr def)"
proof (intro conjI impI)
  assume "\<not> typeof_object obj"
  then show "get rt obj pathString def = Inr obj" by (simp add: get_def)
next
  assume "list_all segment_ok sgs \<and> list_all single_bracket sgs
      \<and> trim pathString = path_text sgs"
  then show "path_keys pathString = spec_keys sgs" by (simp add: path_keys_of_text)
next
  assume a: "typeof_object obj \<and> list_all segment_ok sgs \<and> list_all single_bracket sgs
      \<and> trim pathString = path_text sgs
      \<and> follow rt obj (spec_keys sgs) = Some v
      \<and> (\<forall>i w. i < length (spec_keys sgs)
             \<longrightarrow> follow rt obj (take (Suc i) (spec_keys sgs)) = Some w \<longrightarrow> truthy w)"
  then have keys: "path_keys pathString = spec_keys sgs" by (simp add: path_keys_of_text)
  from a have "walk rt obj (spec_keys sgs) def = Inr v"
    by (intro walk_truthy) blast+
  with a keys show "get rt obj pathString def = Inr v" by (simp add: get_def)
next
  assume a: "typeof_object obj \<and> list_all segment_ok sgs \<and> list_all single_bracket sgs
      \<and> trim pathString = path_text sgs
      \<and> j < length (spec_keys sgs)
      \<and> follow rt obj (take (Suc j) (spec_keys sgs)) = Some u \<and> \<not> truthy u"
  then have keys: "path_keys pathString = spec_keys sgs" by (simp add: path_keys_of_text)
  from a have "walk rt obj (spec_keys sgs) def = Inr def"
    by (intro walk_falsy [of j _ _ _ u]) blast+
  with a keys show "get rt obj pathString def = Inr def" by (simp add: get_def)
next
  assume raised: "get rt obj pathString def = Inl e"
  show "obj = JNull
      \<or> (\<exists>i cur. i < length (path_keys pathString)
            \<and> follow rt obj (take i (path_keys pathString)) = Some cur
            \<and> own_property cur (path_keys pathString ! i) = None
            \<and> inherited rt cur (path_keys pathString ! i) = Inl e)"
  proof (cases "obj = JNull")
    case True
    then show ?thesis by simp
  next
    case False
    from raised have obj: "typeof_object obj"
      and w: "walk rt obj (path_keys pathString) def = Inl e"
      by (auto simp: get_def split: if_splits)
    from obj have "obj \<noteq> JUndefined" by auto
    from walk_raises [OF w False this] show ?thesis by blast
  qed
next
  assume "inherited rt (JArr []) ''0'' = Inr JUndefined"
  then show "get rt (JObj [(''choices'', JArr [])]) ''choices[0].text'' def = Inr def"
    by (rule get_choices_example)
qed

text \<open>
  A runtime for the witness in which the read of an inherited member raises: every
  object inherits \<^verbatim>\<open>constructor\<close>, a function of the runtime, and the read of
  \<^verbatim>\<open>caller\<close> on that function raises a \<^verbatim>\<open>TypeError\<close>.
\<close>

definition accessor_runtime :: runtime where
  "accessor_runtime =
     example_runtime\<lparr>inherited :=
       (\<lambda>v k. if k = ''constructor'' then Inr (JNative ''Object'')
              else if v = JNative ''Object'' \<and> k = ''caller'' then Inl TypeError
              else Inr JUndefined)\<rparr>"

theorem get_contract_witness:
  "get example_runtime (JNum 7) ''a.b'' (JStr ''none'') = Inr (JNum 7)
   \<and> path_keys '' choices[0].text '' = [''choices'', ''0'', ''text'']
   \<and> get example_runtime (JObj [(''choices'', JArr [JObj [(''text'', JStr ''Hi'')]])])
         '' choices[0].text '' (JStr ''none'') = Inr (JStr ''Hi'')
   \<and> get example_runtime (JObj [(''choices'', JArr [JObj [(''text'', JStr ''Hi'')]])])
         ''choices[1].text'' (JStr ''none'') = Inr (JStr ''none'')
   \<and> get accessor_runtime (JObj []) ''constructor.caller'' (JStr ''none'') = Inl TypeError
   \<and> (\<exists>i cur. i < length (path_keys ''constructor.caller'')
         \<and> follow accessor_runtime (JObj []) (take i (path_keys ''constructor.caller''))
             = Some cur
         \<and> own_property cur (path_keys ''constructor.caller'' ! i) = None
         \<and> inherited accessor_runtime cur (path_keys ''constructor.caller'' ! i)
             = Inl TypeError)
   \<and> get example_runtime (JObj [(''choices'', JArr [])]) ''choices[0].text'' (JStr ''none'')
       = Inr (JStr ''none'')"
proof -
  let ?doc = "JObj [(''choices'', JArr [JObj [(''text'', JStr ''Hi'')]])]"
  let ?s0 = "[(''choices'', [''0'']), (''text'', [])] :: segment list"
  let ?s1 = "[(''choices'', [''1'']), (''text'', [])] :: segment list"
  have ok0: "list_all segment_ok ?s0 \<and> list_all single_bracket ?s0
      \<and> trim '' choices[0].text '' = path_text ?s0"
    by code_simp
  have ok1: "list_all segment_ok ?s1 \<and> list_all single_bracket ?s1
      \<and> trim ''choices[1].text'' = path_text ?s1"
    by code_simp
  have k0: "spec_keys ?s0 = [''choices'', ''0'', ''text'']" by code_simp
  have k1: "spec_keys ?s1 = [''choices'', ''1'', ''text'']" by code_simp
  have i0: "array_index ''0'' = Some 0" by code_simp
  have i1: "array_index ''1'' = Some 1" by code_simp
  have inh: "inherited example_runtime = (\<lambda>v k. Inr JUndefined)"
    by (simp add: example_runtime_def)
  have m0: "member example_runtime ?doc ''choices'' = Inr (JArr [JObj [(''text'', JStr ''Hi'')]])"
    by (simp add: member_def)
  have m1: "member example_runtime (JArr [JObj [(''text'', JStr ''Hi'')]]) ''0''
      = Inr (JObj [(''text'', JStr ''Hi'')])"
    by (simp add: member_def i0)
  have m2: "member example_runtime (JObj [(''text'', JStr ''Hi'')]) ''text'' = Inr (JStr ''Hi'')"
    by (simp add: member_def)
  have m3: "member example_runtime (JArr [JObj [(''text'', JStr ''Hi'')]]) ''1'' = Inr JUndefined"
    by (simp add: member_def i1 inh)
  have a: "\<not> typeof_object (JNum 7)" by simp
  have b1: "typeof_object ?doc" by simp
  have b2: "follow example_runtime ?doc (spec_keys ?s0) = Some (JStr ''Hi'')"
    by (simp add: k0 m0 m1 m2)
  have b3: "\<forall>i w. i < length (spec_keys ?s0)
      \<longrightarrow> follow example_runtime ?doc (take (Suc i) (spec_keys ?s0)) = Some w
      \<longrightarrow> truthy w"
  proof (intro allI impI)
    fix i w
    assume "i < length (spec_keys ?s0)"
      and f: "follow example_runtime ?doc (take (Suc i) (spec_keys ?s0)) = Some w"
    then have "i = 0 \<or> i = 1 \<or> i = 2" by (auto simp: k0)
    with f show "truthy w" by (auto simp: k0 m0 m1 m2)
  qed
  have c2: "(1::nat) < length (spec_keys ?s1)" by (simp add: k1)
  have c3: "follow example_runtime ?doc (take (Suc 1) (spec_keys ?s1)) = Some JUndefined"
    by (simp add: k1 m0 m3)
  have c4: "\<not> truthy JUndefined" by simp
  have d: "get accessor_runtime (JObj []) ''constructor.caller'' (JStr ''none'') = Inl TypeError"
    by code_simp
  have d': "JObj [] \<noteq> JNull" by simp
  have e: "inherited example_runtime (JArr []) ''0'' = Inr JUndefined" by (simp add: inh)
  from get_contract [of "JNum 7" example_runtime "''a.b''" "JStr ''none''"] a
  have r1: "get example_runtime (JNum 7) ''a.b'' (JStr ''none'') = Inr (JNum 7)" by blast
  from get_contract [of _ _ "'' choices[0].text ''" _ ?s0] ok0 k0
  have r2: "path_keys '' choices[0].text '' = [''choices'', ''0'', ''text'']" by simp
  from get_contract [of ?doc example_runtime "'' choices[0].text ''" "JStr ''none''" ?s0
      "JStr ''Hi''"] b1 ok0 b2 b3
  have r3: "get example_runtime ?doc '' choices[0].text '' (JStr ''none'') = Inr (JStr ''Hi'')"
    by blast
  from get_contract [of ?doc example_runtime "''choices[1].text''" "JStr ''none''" ?s1 _ 1
      JUndefined] b1 ok1 c2 c3 c4
  have r4: "get example_runtime ?doc ''choices[1].text'' (JStr ''none'') = Inr (JStr ''none'')"
    by blast
  from get_contract [of "JObj []" accessor_runtime "''constructor.caller''" "JStr ''none''"
      _ _ _ _ TypeError] d d'
  have r5: "\<exists>i cur. i < length (path_keys ''constructor.caller'')
      \<and> follow accessor_runtime (JObj []) (take i (path_keys ''constructor.caller'')) = Some cur
      \<and> own_property cur (path_keys ''constructor.caller'' ! i) = None
      \<and> inherited accessor_runtime cur (path_keys ''constructor.caller'' ! i) = Inl TypeError"
    by blast
  from get_contract [of _ example_runtime _ "JStr ''none''"] e
  have r6: "get example_runtime (JObj [(''choices'', JArr [])]) ''choices[0].text''
      (JStr ''none'') = Inr (JStr ''none'')" by blast
  from r1 r2 r3 r4 d r5 r6 show ?thesis by blast
qed

text \<open>
  The claim of the specification, that a root that is no object yields the default,
  fails on a root that is a string: line 100 skips the loop and line 106 returns the
  root.
\<close>

theorem get_root_not_object_counterexample:
  "\<not> typeof_object (JStr ''plain text'')
   \<and> get example_runtime (JStr ''plain text'') ''choices[0].text'' (JStr ''none'')
       = Inr (JStr ''plain text'')
   \<and> get example_runtime (JStr ''plain text'') ''choices[0].text'' (JStr ''none'')
       \<noteq> Inr (JStr ''none'')"
  by (simp add: get_def)

text \<open>
  Two cases that the statement above leaves aside. The class \<^verbatim>\<open>[^}]\<close> of line 92 lets
  one match run over two bracketed sub-segments of a segment, so \<^verbatim>\<open>a[0][0]\<close> names
  the keys \<^verbatim>\<open>a\<close> and \<^verbatim>\<open>0][0\<close>. And \<^verbatim>\<open>typeof null\<close> is \<^verbatim>\<open>"object"\<close>, so line 102 reads a
  member of \<^verbatim>\<open>null\<close> when the root is \<^verbatim>\<open>null\<close> and the path has a key.
\<close>

lemma path_keys_two_brackets: "path_keys ''a[0][0]'' = [''a'', ''0][0'']"
  by code_simp

lemma get_null_root:
  "path_keys pathString \<noteq> [] \<Longrightarrow> get rt JNull pathString def = Inl TypeError"
  by (cases "path_keys pathString") (simp_all add: get_def member_def)

section \<open>The call of the hook\<close>

text \<open>
  \<open>Model\<close> is the record of \<^verbatim>\<open>utils/types\<close> as \<^verbatim>\<open>useModel.ts\<close> builds it in lines 33 to
  68 (the fields \<^verbatim>\<open>id\<close> and \<^verbatim>\<open>notes\<close> are \<open>model_id\<close> and \<open>model_notes\<close> here). \<open>ExtensionPreferences\<close> holds the
  preference values that the hook reads, each under the prefix \<open>pref_\<close>.
\<close>

record Model =
  endpoint :: string
  authType :: string
  apiKey :: string
  inputSchema :: string
  outputKeyPath :: string
  outputTiming :: string
  lengthLimit :: string
  temperature :: string
  name :: string
  description :: string
  favorited :: bool
  model_id :: string
  icon :: string
  iconColor :: string
  model_notes :: string
  isDefault :: bool

record ExtensionPreferences =
  pref_modelEndpoint :: string
  pref_authType :: string
  pref_apiKey :: string
  pref_inputSchema :: string
  pref_outputKeyPath :: string
  pref_outputTiming :: string
  pref_lengthLimit :: string
  pref_includeTemperature :: bool
  pref_promptPrefix :: string
  pref_promptSuffix :: string

text \<open>
  What a call of the hook returns to its caller, and what the hook keeps of it between
  two calls (the four \<^verbatim>\<open>useState\<close> variables of lines 24 to 27).
\<close>

record view =
  data :: jsval
  isLoading :: bool
  error :: "string option"
  dataTag :: string

text \<open>
  One call: the six arguments of \<^verbatim>\<open>useModel\<close> and what the collaborators answer during
  the call: the preferences, the registry of \<^verbatim>\<open>useModels\<close> (its models and its loading
  flag), the capability check \<^verbatim>\<open>environment.canAccess(AI)\<close> and the result of \<^verbatim>\<open>useAI\<close>.
\<close>

record call =
  basePrompt :: string
  prompt :: string
  input :: string
  temperatureArg :: string
  execute :: bool
  modelOverride :: "Model option"
  preferences :: ExtensionPreferences
  registry :: "Model list"
  registryLoading :: bool
  canAccessAI :: bool
  useAI :: view

definition validRaycastAIReps :: "string list" where
  "validRaycastAIReps =
     [''raycast ai'', ''raycastai'', ''raycast'', ''raycast-ai'', ''raycast ai 3.5'']"

definition fallbackModel :: Model where
  "fallbackModel =
     \<lparr>endpoint = ''Raycast AI'', authType = [], apiKey = [], inputSchema = [],
      outputKeyPath = [], outputTiming = ''async'', lengthLimit = ''2500'',
      temperature = ''1.0'', name = ''Text-Davinci-003 Via Raycast AI'', description = [],
      favorited = False, model_id = [], icon = [], iconColor = [], model_notes = [],
      isDefault = False\<rparr>"

definition preferenceModel :: "ExtensionPreferences \<Rightarrow> Model" where
  "preferenceModel p =
     \<lparr>endpoint = pref_modelEndpoint p, authType = pref_authType p, apiKey = pref_apiKey p,
      inputSchema = pref_inputSchema p, outputKeyPath = pref_outputKeyPath p,
      outputTiming = pref_outputTiming p, lengthLimit = pref_lengthLimit p,
      temperature = ''1.0'', name = [], description = [],
      favorited = False, model_id = [], icon = [], iconColor = [], model_notes = [],
      isDefault = False\<rparr>"

definition defaultModel :: "call \<Rightarrow> Model option" where
  \<comment> \<open>line 69\<close>
  "defaultModel c = find isDefault (registry c)"

definition targetModel :: "call \<Rightarrow> Model" where
  \<comment> \<open>lines 70 and 71\<close>
  "targetModel c =
     (case modelOverride c of
        Some m \<Rightarrow> m
      | None \<Rightarrow>
          (case defaultModel c of
             Some m \<Rightarrow> m
           | None \<Rightarrow>
               if endpoint (preferenceModel (preferences c)) = [] then fallbackModel
               else preferenceModel (preferences c)))"

definition raycastModel :: "call \<Rightarrow> bool" where
  \<comment> \<open>lines 72 to 75\<close>
  "raycastModel c =
     (toLowerCase (endpoint (targetModel c)) \<in> set validRaycastAIReps
      \<or> endpoint (targetModel c) = []
      \<or> (registryLoading c \<and> modelOverride c = None
          \<and> endpoint (preferenceModel (preferences c)) = []))"

definition temp :: "runtime \<Rightarrow> call \<Rightarrow> jsval" where
  \<comment> \<open>lines 77 to 81\<close>
  "temp rt c =
     (case modelOverride c of
        Some m \<Rightarrow>
          (case parseFloat rt (temperature (targetModel c)) of
             None \<Rightarrow> JNaN
           | Some r \<Rightarrow> JNum r)
      | None \<Rightarrow>
          if pref_includeTemperature (preferences c) then
            (case parseFloat rt (temperatureArg c) of
               None \<Rightarrow> JNum 1
             | Some r \<Rightarrow> if r \<noteq> 0 then JNum r else JNum 1)
          else JNum 1)"

definition headers :: "call \<Rightarrow> (string \<times> string) list" where
  \<comment> \<open>lines 110 to 122: the object \<^verbatim>\<open>headers\<close>, its keys in the order of their creation\<close>
  "headers c =
     (let base = [(''method'', ''POST''), (''Content-Type'', ''application/json'')]
      in if authType (targetModel c) = ''apiKey''
           then base @ [(''Authorization'', ''Api-Key '' @ trim (apiKey (targetModel c)))]
         else if authType (targetModel c) = ''bearerToken''
           then base @ [(''Authorization'', ''Bearer '' @ trim (apiKey (targetModel c)))]
         else if authType (targetModel c) = ''x-api-key''
           then base @ [(''X-API-Key'', trim (apiKey (targetModel c)))]
         else base)"

definition call_tag :: "call \<Rightarrow> string" where
  \<comment> \<open>\<^verbatim>\<open>basePrompt + prompt + input\<close>\<close>
  "call_tag c = basePrompt c @ prompt c @ input c"

section \<open>The template of the request\<close>

definition substitute :: "call \<Rightarrow> string \<Rightarrow> string" where
  \<comment> \<open>the three calls of \<^verbatim>\<open>replace\<close> of lines 128 to 143, and again of lines 159 to 174\<close>
  "substitute c s =
     replace
       (replace
          (replace s ''{prompt}''
             (pref_promptPrefix (preferences c) @ sanitize (prompt c)
                @ pref_promptSuffix (preferences c)))
          ''{basePrompt}''
          (pref_promptPrefix (preferences c) @ sanitize (basePrompt c)))
       ''{input}''
       (if js_includes (inputSchema (targetModel c)) ''{prompt'' \<and> prompt c = input c then []
        else sanitize (input c) @ pref_promptSuffix (preferences c))"

definition set_property :: "(string \<times> jsval) list \<Rightarrow> string \<Rightarrow> jsval \<Rightarrow> (string \<times> jsval) list" where
  \<comment> \<open>an assignment to a property: in place when the key is there, at the end otherwise\<close>
  "set_property kvs k v =
     (if map_of kvs k = None then kvs @ [(k, v)]
      else map (\<lambda>(k', v'). if k' = k then (k', v) else (k', v')) kvs)"

definition with_temperature :: "jsval \<Rightarrow> jsval \<Rightarrow> error + jsval" where
  \<comment> \<open>line 146; the module is strict code, where an assignment to a property of a
      primitive value raises, as it does on \<^verbatim>\<open>null\<close>; an array takes the property
      beside its elements\<close>
  "with_temperature schema t =
     (case schema of
        JObj kvs \<Rightarrow> Inr (JObj (set_property kvs ''temperature'' t))
      | JArr xs \<Rightarrow> Inr (JArr xs)
      | _ \<Rightarrow> Inl TypeError)"

definition modelSchema :: "runtime \<Rightarrow> call \<Rightarrow> error + jsval" where
  \<comment> \<open>lines 124 to 147\<close>
  "modelSchema rt c =
     (if raycastModel c then
        (if pref_includeTemperature (preferences c) \<or> modelOverride c \<noteq> None
         then with_temperature (JObj []) (temp rt c) else Inr (JObj []))
      else
        (case JSON_parse rt (substitute c (inputSchema (targetModel c))) of
           None \<Rightarrow> Inl SyntaxError
         | Some schema \<Rightarrow>
             if pref_includeTemperature (preferences c) \<or> modelOverride c \<noteq> None
             then with_temperature schema (temp rt c) else Inr schema))"

section \<open>The accumulation of a stream\<close>

definition accumulate :: "string \<Rightarrow> string \<Rightarrow> string" where
  \<comment> \<open>lines 205 to 209, on the text of \<^verbatim>\<open>output\<close>\<close>
  "accumulate text_so_far output =
     (if js_includes output text_so_far then output else text_so_far @ output)"

subsection \<open>Calls for the examples\<close>

definition example_model :: Model where
  "example_model =
     \<lparr>endpoint = ''https://api.example.com/v1/complete'', authType = ''bearerToken'',
      apiKey = '' sk-123 '', inputSchema = ''{\"prompt\": \"{prompt}\"}'',
      outputKeyPath = ''text'', outputTiming = ''async'', lengthLimit = ''2500'',
      temperature = ''1.0'', name = ''Example'', description = [],
      favorited = False, model_id = ''m1'', icon = [], iconColor = [], model_notes = [],
      isDefault = True\<rparr>"

definition example_preferences :: ExtensionPreferences where
  "example_preferences =
     \<lparr>pref_modelEndpoint = [], pref_authType = [], pref_apiKey = [],
      pref_inputSchema = [], pref_outputKeyPath = [], pref_outputTiming = ''async'',
      pref_lengthLimit = ''2500'', pref_includeTemperature = False,
      pref_promptPrefix = [], pref_promptSuffix = []\<rparr>"

definition example_call :: call where
  \<comment> \<open>the prompt \<^verbatim>\<open>hi\<close> for the default model of the registry\<close>
  "example_call =
     \<lparr>basePrompt = [], prompt = ''hi'', input = [], temperatureArg = ''1.0'',
      execute = True, modelOverride = None, preferences = example_preferences,
      registry = [example_model], registryLoading = False, canAccessAI = False,
      useAI = \<lparr>data = JStr [], isLoading = False, error = None, dataTag = []\<rparr>\<rparr>"

section \<open>Properties of one call\<close>

text \<open>
  \<^bold>\<open>C2.\<close> The merge rule of the stream: when the new fragment contains the text
  accumulated so far, the fragment replaces it; otherwise the fragment is appended.
  \<^verbatim>\<open>Hello\<close> with \<^verbatim>\<open>Hello world\<close> gives \<^verbatim>\<open>Hello world\<close>, and so does \<^verbatim>\<open>Hello\<close> with
  \<^verbatim>\<open> world\<close>.
\<close>

theorem accumulate_merge_rule:
  "((\<exists>b a. fragment = b @ prev @ a) \<longrightarrow> accumulate prev fragment = fragment)
   \<and> (\<not> (\<exists>b a. fragment = b @ prev @ a) \<longrightarrow> accumulate prev fragment = prev @ fragment)
   \<and> accumulate ''Hello'' ''Hello world'' = ''Hello world''
   \<and> accumulate ''Hello'' '' world'' = ''Hello world''"
proof (intro conjI impI)
  assume "\<exists>b a. fragment = b @ prev @ a"
  then show "accumulate prev fragment = fragment"
    by (simp add: accumulate_def js_includes_iff)
next
  assume "\<not> (\<exists>b a. fragment = b @ prev @ a)"
  then show "accumulate prev fragment = prev @ fragment"
    by (simp add: accumulate_def js_includes_iff)
next
  show "accumulate ''Hello'' ''Hello world'' = ''Hello world''"
    by (simp add: accumulate_def js_includes_def)
next
  show "accumulate ''Hello'' '' world'' = ''Hello world''"
    by (simp add: accumulate_def js_includes_def)
qed

theorem accumulate_merge_rule_witness:
  "(\<exists>b a. ''Hello world'' = b @ ''Hello'' @ a)
   \<and> accumulate ''Hello'' ''Hello world'' = ''Hello world''
   \<and> \<not> (\<exists>b a. '' world'' = b @ ''Hello'' @ a)
   \<and> accumulate ''Hello'' '' world'' = ''Hello'' @ '' world''"
proof -
  have "''Hello world'' = [] @ ''Hello'' @ '' world''" by simp
  then have inside: "\<exists>b a. ''Hello world'' = b @ ''Hello'' @ a" by blast
  have "\<not> js_includes '' world'' ''Hello''" by (simp add: js_includes_def)
  then have outside: "\<not> (\<exists>b a. '' world'' = b @ ''Hello'' @ a)"
    by (simp add: js_includes_iff)
  from accumulate_merge_rule [of "''Hello world''" "''Hello''"] inside
  have "accumulate ''Hello'' ''Hello world'' = ''Hello world''" by blast
  moreover from accumulate_merge_rule [of "'' world''" "''Hello''"] outside
  have "accumulate ''Hello'' '' world'' = ''Hello'' @ '' world''" by blast
  ultimately show ?thesis using inside outside by blast
qed

text \<open>
  \<^bold>\<open>C3.\<close> The order of resolution of the model: the explicit override when the caller
  gives one; otherwise the default model of the registry when there is one (the first
  model of the registry that is marked default); otherwise the model of the
  preferences when its endpoint is not empty; otherwise the fallback, whose endpoint
  names the managed service.
\<close>

theorem targetModel_resolution_order:
  "(modelOverride c = Some m \<longrightarrow> targetModel c = m)
   \<and> (modelOverride c = None \<longrightarrow> defaultModel c = Some m \<longrightarrow> targetModel c = m)
   \<and> (modelOverride c = None \<longrightarrow> defaultModel c = None
        \<longrightarrow> pref_modelEndpoint (preferences c) \<noteq> []
        \<longrightarrow> targetModel c = preferenceModel (preferences c)
            \<and> endpoint (targetModel c) = pref_modelEndpoint (preferences c))
   \<and> (modelOverride c = None \<longrightarrow> defaultModel c = None
        \<longrightarrow> pref_modelEndpoint (preferences c) = []
        \<longrightarrow> targetModel c = fallbackModel \<and> endpoint (targetModel c) = ''Raycast AI'')
   \<and> (defaultModel c = Some m \<longrightarrow> m \<in> set (registry c) \<and> isDefault m)
   \<and> (defaultModel c = None \<longleftrightarrow> (\<forall>x \<in> set (registry c). \<not> isDefault x))"
proof (intro conjI impI)
  assume "defaultModel c = Some m"
  then show "m \<in> set (registry c)" "isDefault m"
    by (auto simp: defaultModel_def find_Some_iff)
next
  show "defaultModel c = None \<longleftrightarrow> (\<forall>x \<in> set (registry c). \<not> isDefault x)"
    by (auto simp: defaultModel_def find_None_iff)
qed (simp_all add: targetModel_def preferenceModel_def fallbackModel_def)

theorem targetModel_resolution_order_witness:
  "targetModel (example_call\<lparr>modelOverride := Some (example_model\<lparr>name := ''Override''\<rparr>),
        preferences := example_preferences\<lparr>pref_modelEndpoint := ''https://pref.example.com''\<rparr>\<rparr>)
     = example_model\<lparr>name := ''Override''\<rparr>
   \<and> targetModel (example_call\<lparr>preferences :=
        example_preferences\<lparr>pref_modelEndpoint := ''https://pref.example.com''\<rparr>\<rparr>)
     = example_model
   \<and> endpoint (targetModel (example_call\<lparr>registry := [], preferences :=
        example_preferences\<lparr>pref_modelEndpoint := ''https://pref.example.com''\<rparr>\<rparr>))
     = ''https://pref.example.com''
   \<and> targetModel (example_call\<lparr>registry := []\<rparr>) = fallbackModel
   \<and> example_model \<in> set (registry example_call)"
proof -
  let ?prefs = "example_preferences\<lparr>pref_modelEndpoint := ''https://pref.example.com''\<rparr>"
  let ?over = "example_model\<lparr>name := ''Override''\<rparr>"
  let ?c1 = "example_call\<lparr>modelOverride := Some ?over, preferences := ?prefs\<rparr>"
  let ?c2 = "example_call\<lparr>preferences := ?prefs\<rparr>"
  let ?c3 = "example_call\<lparr>registry := [], preferences := ?prefs\<rparr>"
  let ?c4 = "example_call\<lparr>registry := []\<rparr>"
  have o1: "modelOverride ?c1 = Some ?over" by simp
  have o2: "modelOverride ?c2 = None" "defaultModel ?c2 = Some example_model"
    by (simp_all add: example_call_def defaultModel_def example_model_def)
  have o3: "modelOverride ?c3 = None" "defaultModel ?c3 = None"
    "pref_modelEndpoint (preferences ?c3) \<noteq> []"
    by (simp_all add: example_call_def defaultModel_def)
  have o4: "modelOverride ?c4 = None" "defaultModel ?c4 = None"
    "pref_modelEndpoint (preferences ?c4) = []"
    by (simp_all add: example_call_def defaultModel_def example_preferences_def)
  have o5: "defaultModel example_call = Some example_model"
    by (simp add: example_call_def defaultModel_def example_model_def)
  from targetModel_resolution_order [of ?c1 ?over] o1
  have "targetModel ?c1 = ?over" by blast
  moreover from targetModel_resolution_order [of ?c2 example_model] o2
  have "targetModel ?c2 = example_model" by blast
  moreover from targetModel_resolution_order [of ?c3] o3
  have "endpoint (targetModel ?c3) = pref_modelEndpoint (preferences ?c3)" by blast
  then have "endpoint (targetModel ?c3) = ''https://pref.example.com''" by simp
  moreover from targetModel_resolution_order [of ?c4] o4
  have "targetModel ?c4 = fallbackModel" by blast
  moreover from targetModel_resolution_order [of example_call example_model] o5
  have "example_model \<in> set (registry example_call)" by blast
  ultimately show ?thesis by blast
qed

lemma headers_authorization:
  "headers c =
     [(''method'', ''POST''), (''Content-Type'', ''application/json'')]
     @ (if authType (targetModel c) = ''apiKey''
          then [(''Authorization'', ''Api-Key '' @ trim (apiKey (targetModel c)))]
        else if authType (targetModel c) = ''bearerToken''
          then [(''Authorization'', ''Bearer '' @ trim (apiKey (targetModel c)))]
        else if authType (targetModel c) = ''x-api-key''
          then [(''X-API-Key'', trim (apiKey (targetModel c)))]
        else [])"
  by (simp add: headers_def)

text \<open>
  \<^bold>\<open>C9.\<close> The headers of a request. The authorization entry is derived from
  \<^verbatim>\<open>authType\<close> and \<^verbatim>\<open>apiKey\<close> alone: \<open>headers_authorization\<close>. But the object
  \<^verbatim>\<open>headers\<close> of line 110 holds, beside \<^verbatim>\<open>Content-Type\<close>, the key \<^verbatim>\<open>method\<close>, and line
  157 hands the whole object to \<^verbatim>\<open>fetch\<close> as the headers of the request: every request
  carries a header \<^verbatim>\<open>method: POST\<close>, whatever the model.
\<close>

theorem headers_carry_method:
  "(''method'', ''POST'') \<in> set (headers c)
   \<and> headers (example_call\<lparr>registry := [example_model\<lparr>authType := ''none''\<rparr>]\<rparr>)
       = [(''method'', ''POST''), (''Content-Type'', ''application/json'')]"
proof
  show "(''method'', ''POST'') \<in> set (headers c)"
    by (simp add: headers_authorization)
  show "headers (example_call\<lparr>registry := [example_model\<lparr>authType := ''none''\<rparr>]\<rparr>)
       = [(''method'', ''POST''), (''Content-Type'', ''application/json'')]"
    by (simp add: headers_def targetModel_def defaultModel_def example_call_def
        example_model_def)
qed

text \<open>
  A replacement text without the character \<^verbatim>\<open>$\<close> is inserted as it stands, in the
  place of the first occurrence of the pattern.
\<close>

lemma expand_plain: "CHR ''$'' \<notin> set rep \<Longrightarrow> expand matched pre post rep = rep"
  by (induction matched pre post rep rule: expand.induct) auto

lemma replace_plain:
  "split_first pat s = Some (b, a) \<Longrightarrow> CHR ''$'' \<notin> set rep
     \<Longrightarrow> replace s pat rep = b @ rep @ a"
  by (simp add: replace_def expand_plain)

lemma replace_absent: "\<not> js_includes s pat \<Longrightarrow> replace s pat rep = s"
  by (cases "split_first pat s") (simp_all add: replace_def js_includes_def)

text \<open>
  \<^bold>\<open>C5.\<close> The substitution of the placeholders. \<^verbatim>\<open>replace\<close> reads its second argument
  as a replacement pattern, so a prompt that holds \<^verbatim>\<open>$$\<close> is not substituted as it
  stands: for the template \<^verbatim>\<open>{"prompt": "{prompt}"}\<close> and the prompt
  \<^verbatim>\<open>Solve $$x^2 = 4$$\<close> the text handed to \<^verbatim>\<open>JSON.parse\<close> holds \<^verbatim>\<open>Solve $x^2 = 4$\<close>,
  which is not the sanitized prompt between the prefix and the suffix.
\<close>

theorem substitute_dollar_pattern:
  "substitute (example_call\<lparr>prompt := ''Solve $$x^2 = 4$$''\<rparr>)
       (inputSchema (targetModel (example_call\<lparr>prompt := ''Solve $$x^2 = 4$$''\<rparr>)))
     = ''{\"prompt\": \"Solve $x^2 = 4$\"}''
   \<and> ''{\"prompt\": \"'' @ pref_promptPrefix example_preferences
         @ sanitize ''Solve $$x^2 = 4$$'' @ pref_promptSuffix example_preferences @ ''\"}''
     = ''{\"prompt\": \"Solve $$x^2 = 4$$\"}''"
proof
  have m: "targetModel (example_call\<lparr>prompt := ''Solve $$x^2 = 4$$''\<rparr>) = example_model"
    by (simp add: targetModel_def defaultModel_def example_call_def example_model_def)
  have s: "sanitize ''Solve $$x^2 = 4$$'' = ''Solve $$x^2 = 4$$''"
    by (simp add: sanitize_def collapse_space_def is_space_def)
  show "substitute (example_call\<lparr>prompt := ''Solve $$x^2 = 4$$''\<rparr>)
       (inputSchema (targetModel (example_call\<lparr>prompt := ''Solve $$x^2 = 4$$''\<rparr>)))
     = ''{\"prompt\": \"Solve $x^2 = 4$\"}''"
    unfolding m
    by (simp add: substitute_def s example_call_def example_model_def example_preferences_def
        replace_def js_includes_def)
  show "''{\"prompt\": \"'' @ pref_promptPrefix example_preferences
         @ sanitize ''Solve $$x^2 = 4$$'' @ pref_promptSuffix example_preferences @ ''\"}''
     = ''{\"prompt\": \"Solve $$x^2 = 4$$\"}''"
    by (simp add: s example_preferences_def)
qed

section \<open>The hook between its calls\<close>

text \<open>
  The hook keeps state between its calls: the four state variables, the reference
  \<^verbatim>\<open>AIRef\<close>, the dependencies of the last effect and the callbacks it has handed to
  promises and streams. The runtime is single threaded: a call of the hook, a run of
  the effect, the arrival of a response or of a chunk each run to their end before the
  next begins, callbacks of settled promises included. The model is a function \<open>step\<close>
  from an event and a state to the next state.

  A callback is modelled by the variables that it closes over. The callbacks of lines
  187 to 226 read \<^verbatim>\<open>me\<close>, \<^verbatim>\<open>basePrompt\<close>, \<^verbatim>\<open>prompt\<close>, \<^verbatim>\<open>input\<close> and \<^verbatim>\<open>targetModel\<close>, all
  constants of the call of the hook that scheduled the effect.
\<close>

datatype promise = Pending | Fulfilled bool | Rejected

record closure =
  me_tag :: string
  render_tag :: string
  timing :: string
  keyPath :: string

record listener =
  handler :: closure
  accumulated :: string

record request =
  url :: string
  sent_headers :: "(string \<times> string) list"
  body :: string

text \<open>
  A connection is one call of \<^verbatim>\<open>fetch\<close>: the request, the state of the promise
  \<^verbatim>\<open>fetchAI\<close> (\<open>Fulfilled ok\<close> holds \<^verbatim>\<open>response.ok\<close>), the callbacks of line 187 that wait
  for it, the handlers that line 196 has put on the body, the callback of line 189
  that waits for the decoded body, whether \<^verbatim>\<open>response.json()\<close> has been called, and
  whether \<^verbatim>\<open>forceStop\<close> or \<^verbatim>\<open>stopModel\<close> has asked to close the body. The model takes
  the close for effective: a body that was asked to close delivers nothing more.
  \<open>conn_tag\<close> records the tag of the call that sent the request.
\<close>

record conn =
  conn_tag :: string
  sent :: request
  fetch :: promise
  waiting :: "closure list"
  listeners :: "listener list"
  json_waiter :: "closure option"
  bodyUsed :: bool
  closing :: bool

record hook = view +
  AIRef :: "(nat \<times> string) option"
  conns :: "conn list"
  deps :: "(bool \<times> string \<times> string \<times> string) option"
  scheduled :: "(call \<times> bool \<times> jsval) option"

definition init_hook :: hook where
  "init_hook =
     \<lparr>data = JStr [], isLoading = False, error = None, dataTag = [],
      AIRef = None, conns = [], deps = None, scheduled = None\<rparr>"

definition the_view :: "hook \<Rightarrow> view" where
  "the_view h =
     \<lparr>data = data h, isLoading = isLoading h, error = error h, dataTag = dataTag h\<rparr>"

definition update_conn :: "nat \<Rightarrow> (conn \<Rightarrow> conn) \<Rightarrow> hook \<Rightarrow> hook" where
  "update_conn i f h =
     (if i < length (conns h) then h\<lparr>conns := (conns h)[i := f (conns h ! i)]\<rparr> else h)"

subsection \<open>What a call returns\<close>

definition res :: "call \<Rightarrow> hook \<Rightarrow> view" where
  \<comment> \<open>lines 236 to 253\<close>
  "res c h =
     (if canAccessAI c then (useAI c)\<lparr>dataTag := call_tag c\<rparr>
      else \<lparr>data = data h, isLoading = True, error = error h, dataTag = dataTag h\<rparr>)"

definition useModel :: "runtime \<Rightarrow> call \<Rightarrow> hook \<Rightarrow> error + view" where
  \<comment> \<open>what the call returns, or what it raises: line 126 and line 146 run before
      any \<^verbatim>\<open>return\<close>\<close>
  "useModel rt c h =
     (case modelSchema rt c of
        Inl e \<Rightarrow> Inl e
      | Inr schema \<Rightarrow>
          Inr (if basePrompt c = [] \<and> prompt c = [] then
                 \<lparr>data = JStr [], isLoading = False,
                  error = Some ''Prompt cannot be empty'', dataTag = []\<rparr>
               else if toLowerCase (endpoint (targetModel c)) \<in> set validRaycastAIReps
                       \<or> registryLoading c then
                 (if registryLoading c then
                    \<lparr>data = JStr [], isLoading = True, error = None, dataTag = call_tag c\<rparr>
                  else res c h)
               else if js_includes (endpoint (targetModel c)) '':'' then the_view h
               else \<lparr>data = JStr [], isLoading = False,
                     error = Some ''Invalid Endpoint'', dataTag = []\<rparr>))"

subsection \<open>The callbacks\<close>

definition text_of :: "runtime \<Rightarrow> jsval \<Rightarrow> string option" where
  \<comment> \<open>\<^verbatim>\<open>output.toString()\<close>, and \<^verbatim>\<open>output\<close> as \<^verbatim>\<open>text + output\<close> reads it\<close>
  "text_of rt v = (case v of JStr s \<Rightarrow> Some s | _ \<Rightarrow> to_text rt v)"

definition handle_line :: "runtime \<Rightarrow> closure \<Rightarrow> string \<times> jsval \<Rightarrow> string \<Rightarrow> string \<times> jsval" where
  \<comment> \<open>lines 199 to 216, on the variable \<^verbatim>\<open>text\<close> and the state variable \<^verbatim>\<open>data\<close>;
      whatever the \<^verbatim>\<open>try\<close> block raises is caught and the line is skipped\<close>
  "handle_line rt k st line =
     (if startsWith line ''data: [DONE]'' then st
      else if startsWith line ''data: '' then
        (case JSON_parse rt (drop 5 line) of
           None \<Rightarrow> st
         | Some jsonData \<Rightarrow>
             (case get rt jsonData (keyPath k) JUndefined of
                Inl e \<Rightarrow> st
              | Inr v \<Rightarrow>
                  (case text_of rt (if truthy v then v else JStr []) of
                     None \<Rightarrow> st
                   | Some output \<Rightarrow>
                       (accumulate (fst st) output,
                        if me_tag k = render_tag k then JStr (accumulate (fst st) output)
                        else snd st))))
      else st)"

definition handle_chunk :: "runtime \<Rightarrow> closure \<Rightarrow> string \<times> jsval \<Rightarrow> string \<Rightarrow> string \<times> jsval" where
  \<comment> \<open>lines 196 to 217\<close>
  "handle_chunk rt k st chunk = foldl (handle_line rt k) st (split_on (CHR 0x0A) chunk)"

fun deliver :: "runtime \<Rightarrow> string \<Rightarrow> listener list \<Rightarrow> jsval \<Rightarrow> listener list \<times> jsval" where
  \<comment> \<open>a chunk goes to every handler on the body, in the order of their registration\<close>
  "deliver rt chunk [] d = ([], d)"
| "deliver rt chunk (l # ls) d =
     (case handle_chunk rt (handler l) (accumulated l, d) chunk of
        (t, d') \<Rightarrow>
          (case deliver rt chunk ls d' of
             (ls', d'') \<Rightarrow> (l\<lparr>accumulated := t\<rparr> # ls', d'')))"

definition forceStop :: "nat \<Rightarrow> hook \<Rightarrow> hook" where
  \<comment> \<open>lines 177 to 181\<close>
  "forceStop i h = update_conn i (\<lambda>cn. cn\<lparr>closing := True\<rparr>) h"

definition on_response :: "closure \<Rightarrow> nat \<Rightarrow> bool \<Rightarrow> hook \<Rightarrow> hook" where
  \<comment> \<open>lines 187 to 219, for a response with \<^verbatim>\<open>response.ok\<close> as given\<close>
  "on_response k i ok h =
     (if ok \<and> timing k = ''sync'' then
        update_conn i
          (\<lambda>cn. if bodyUsed cn then cn else cn\<lparr>json_waiter := Some k, bodyUsed := True\<rparr>) h
      else if ok \<and> timing k = ''async'' then
        update_conn i
          (\<lambda>cn. cn\<lparr>listeners := listeners cn @ [\<lparr>handler = k, accumulated = []\<rparr>]\<rparr>)
          (h\<lparr>dataTag := render_tag k\<rparr>)
      else h)"

definition on_finally :: "closure \<Rightarrow> nat \<Rightarrow> hook \<Rightarrow> hook" where
  \<comment> \<open>lines 220 to 226\<close>
  "on_finally k i h =
     (if me_tag k \<noteq> render_tag k then forceStop i h else h\<lparr>isLoading := False\<rparr>)"

definition settle :: "nat \<Rightarrow> promise \<Rightarrow> hook \<Rightarrow> hook" where
  \<comment> \<open>the promise settles: the waiting callbacks of line 187 run in their order when it
      is fulfilled, then the callbacks of line 220\<close>
  "settle i p h =
     (let ks = waiting (conns h ! i);
          h1 = update_conn i (\<lambda>cn. cn\<lparr>fetch := p, waiting := []\<rparr>) h;
          h2 = (case p of
                  Fulfilled ok \<Rightarrow> foldl (\<lambda>s k. on_response k i ok s) h1 ks
                | _ \<Rightarrow> h1)
      in foldl (\<lambda>s k. on_finally k i s) h2 ks)"

definition attach :: "closure \<Rightarrow> nat \<Rightarrow> hook \<Rightarrow> hook" where
  \<comment> \<open>lines 187 and 220: \<^verbatim>\<open>then\<close> and \<^verbatim>\<open>finally\<close> on the promise of the connection\<close>
  "attach k i h =
     (if i < length (conns h) then
        (case fetch (conns h ! i) of
           Pending \<Rightarrow> update_conn i (\<lambda>cn. cn\<lparr>waiting := waiting cn @ [k]\<rparr>) h
         | Fulfilled ok \<Rightarrow> on_finally k i (on_response k i ok h)
         | Rejected \<Rightarrow> on_finally k i h)
      else h)"

subsection \<open>The effect\<close>

definition new_conn :: "runtime \<Rightarrow> call \<Rightarrow> jsval \<Rightarrow> conn" where
  \<comment> \<open>lines 155 to 176\<close>
  "new_conn rt c schema =
     \<lparr>conn_tag = call_tag c,
      sent = \<lparr>url = endpoint (targetModel c), sent_headers = headers c,
              body = substitute c (JSON_stringify rt schema)\<rparr>,
      fetch = Pending, waiting = [], listeners = [], json_waiter = None,
      bodyUsed = False, closing = False\<rparr>"

definition dispatch :: "runtime \<Rightarrow> call \<Rightarrow> bool \<Rightarrow> jsval \<Rightarrow> hook \<Rightarrow> hook" where
  \<comment> \<open>lines 154 to 183; the second argument is \<^verbatim>\<open>isLoading\<close> as the call read it\<close>
  "dispatch rt c loading schema h =
     (if AIRef h = None \<and> execute c \<and> length (prompt c) > 0 \<and> \<not> loading
      then h\<lparr>conns := conns h @ [new_conn rt c schema],
             AIRef := Some (length (conns h), call_tag c)\<rparr>
      else h)"

definition runEffect :: "runtime \<Rightarrow> call \<Rightarrow> bool \<Rightarrow> jsval \<Rightarrow> hook \<Rightarrow> hook" where
  \<comment> \<open>lines 149 to 227\<close>
  "runEffect rt c loading schema h =
     (if raycastModel c \<or> \<not> execute c then h
      else
        (let h1 = (dispatch rt c loading schema h)\<lparr>isLoading := True\<rparr>
         in (case AIRef h1 of
               None \<Rightarrow> h1
             | Some (i, t) \<Rightarrow>
                 attach \<lparr>me_tag = t, render_tag = call_tag c,
                         timing = outputTiming (targetModel c),
                         keyPath = outputKeyPath (targetModel c)\<rparr> i h1)))"

definition flush :: "runtime \<Rightarrow> hook \<Rightarrow> hook" where
  \<comment> \<open>the scheduled effect runs\<close>
  "flush rt h =
     (case scheduled h of
        None \<Rightarrow> h
      | Some (c, loading, schema) \<Rightarrow> runEffect rt c loading schema (h\<lparr>scheduled := None\<rparr>))"

definition stopModel :: "hook \<Rightarrow> hook" where
  \<comment> \<open>lines 229 to 234\<close>
  "stopModel h =
     (case AIRef h of
        None \<Rightarrow> h
      | Some (i, t) \<Rightarrow> (forceStop i h)\<lparr>AIRef := None\<rparr>)"

subsection \<open>The events\<close>

text \<open>
  \<^item> \<open>Render c\<close>: the caller calls the hook. An effect that is still scheduled runs
    first. When the call returns, its effect is scheduled if a dependency of line 227
    has changed; when the call raises, nothing is scheduled.
  \<^item> \<open>Flush\<close>: the scheduled effect runs.
  \<^item> \<open>Respond i ok\<close> and \<open>Fail i\<close>: the promise of connection \<open>i\<close> is fulfilled or
    rejected.
  \<^item> \<open>Chunk i s\<close>: the body of connection \<open>i\<close> emits the chunk \<open>s\<close>.
  \<^item> \<open>Body i v\<close>: the body of connection \<open>i\<close> is complete and decodes to \<open>v\<close>.
  \<^item> \<open>Stop\<close>: the caller calls \<^verbatim>\<open>stopModel\<close>.
\<close>

datatype event =
    Render call
  | Flush
  | Respond nat bool
  | Fail nat
  | Chunk nat string
  | Body nat jsval
  | Stop

definition render :: "runtime \<Rightarrow> call \<Rightarrow> hook \<Rightarrow> hook" where
  "render rt c h =
     (case modelSchema rt c of
        Inl e \<Rightarrow> h
      | Inr schema \<Rightarrow>
          if deps h = Some (execute c, basePrompt c, input c, prompt c) then h
          else h\<lparr>deps := Some (execute c, basePrompt c, input c, prompt c),
                 scheduled := Some (c, isLoading h, schema)\<rparr>)"

definition on_chunk :: "runtime \<Rightarrow> nat \<Rightarrow> string \<Rightarrow> hook \<Rightarrow> hook" where
  "on_chunk rt i s h =
     (if i < length (conns h) \<and> fetch (conns h ! i) = Fulfilled True
         \<and> \<not> closing (conns h ! i)
      then (case deliver rt s (listeners (conns h ! i)) (data h) of
              (ls, d) \<Rightarrow> (update_conn i (\<lambda>cn. cn\<lparr>listeners := ls\<rparr>) h)\<lparr>data := d\<rparr>)
      else h)"

definition on_body :: "runtime \<Rightarrow> nat \<Rightarrow> jsval \<Rightarrow> hook \<Rightarrow> hook" where
  \<comment> \<open>lines 189 to 192; a \<^verbatim>\<open>get\<close> that raises leaves a rejected promise and no change\<close>
  "on_body rt i v h =
     (if i < length (conns h) \<and> fetch (conns h ! i) = Fulfilled True
         \<and> \<not> closing (conns h ! i)
      then (case json_waiter (conns h ! i) of
              None \<Rightarrow> h
            | Some k \<Rightarrow>
                (case get rt v (keyPath k) JUndefined of
                   Inl e \<Rightarrow> update_conn i (\<lambda>cn. cn\<lparr>json_waiter := None\<rparr>) h
                 | Inr output \<Rightarrow>
                     (update_conn i (\<lambda>cn. cn\<lparr>json_waiter := None\<rparr>) h)\<lparr>data := output\<rparr>))
      else h)"

fun step :: "runtime \<Rightarrow> event \<Rightarrow> hook \<Rightarrow> hook" where
  "step rt (Render c) h = render rt c (flush rt h)"
| "step rt Flush h = flush rt h"
| "step rt (Respond i ok) h =
     (if i < length (conns h) \<and> fetch (conns h ! i) = Pending
      then settle i (Fulfilled ok) h else h)"
| "step rt (Fail i) h =
     (if i < length (conns h) \<and> fetch (conns h ! i) = Pending
      then settle i Rejected h else h)"
| "step rt (Chunk i s) h = on_chunk rt i s h"
| "step rt (Body i v) h = on_body rt i v h"
| "step rt Stop h = stopModel h"

definition run :: "runtime \<Rightarrow> event list \<Rightarrow> hook \<Rightarrow> hook" where
  "run rt evs h = foldl (\<lambda>s ev. step rt ev s) h evs"

section \<open>Properties of the hook between its calls\<close>

text \<open>
  \<open>requests h\<close> lists the requests sent so far. A step is \<open>steady\<close> when it sends no
  request, keeps \<^verbatim>\<open>AIRef\<close> and the state variable \<^verbatim>\<open>error\<close>, and reopens no body.
\<close>

definition requests :: "hook \<Rightarrow> request list" where
  "requests h = map sent (conns h)"

definition steady :: "hook \<Rightarrow> hook \<Rightarrow> bool" where
  "steady h h' =
     (AIRef h' = AIRef h \<and> error h' = error h \<and> length (conns h') = length (conns h)
      \<and> (\<forall>j. j < length (conns h) \<longrightarrow>
             conn_tag (conns h' ! j) = conn_tag (conns h ! j)
             \<and> sent (conns h' ! j) = sent (conns h ! j)
             \<and> (closing (conns h ! j) \<longrightarrow> closing (conns h' ! j))))"

definition single_live :: "hook \<Rightarrow> bool" where
  \<comment> \<open>only the connection that \<^verbatim>\<open>AIRef\<close> holds can be open\<close>
  "single_live h =
     ((\<forall>j. j < length (conns h) \<longrightarrow> \<not> closing (conns h ! j)
            \<longrightarrow> AIRef h = Some (j, conn_tag (conns h ! j)))
      \<and> (\<forall>i t. AIRef h = Some (i, t) \<longrightarrow> i < length (conns h) \<and> conn_tag (conns h ! i) = t))"

lemma length_update_conn: "length (conns (update_conn i f h)) = length (conns h)"
  by (simp add: update_conn_def)

lemma nth_update_conn:
  "j < length (conns h) \<Longrightarrow>
     conns (update_conn i f h) ! j = (if j = i then f (conns h ! i) else conns h ! j)"
  by (simp add: update_conn_def nth_list_update)

lemma update_conn_fields:
  "AIRef (update_conn i f h) = AIRef h" "error (update_conn i f h) = error h"
  "data (update_conn i f h) = data h" "isLoading (update_conn i f h) = isLoading h"
  "dataTag (update_conn i f h) = dataTag h" "scheduled (update_conn i f h) = scheduled h"
  "deps (update_conn i f h) = deps h"
  by (simp_all add: update_conn_def)

lemma steady_refl: "steady h h"
  by (simp add: steady_def)

lemma steady_trans: "steady h h' \<Longrightarrow> steady h' h'' \<Longrightarrow> steady h h''"
  by (simp add: steady_def)

lemma steady_requests: "steady h h' \<Longrightarrow> requests h' = requests h"
  by (auto simp: steady_def requests_def intro: nth_equalityI)

lemma steady_update_conn:
  assumes "\<And>cn. conn_tag (f cn) = conn_tag cn"
    and "\<And>cn. sent (f cn) = sent cn"
    and "\<And>cn. closing cn \<Longrightarrow> closing (f cn)"
  shows "steady h (update_conn i f h)"
  using assms by (simp add: steady_def length_update_conn nth_update_conn update_conn_fields)

lemma steady_foldl:
  assumes "\<And>s k. steady s (f s k)"
  shows "steady h (foldl f h ks)"
proof (induction ks arbitrary: h)
  case Nil
  show ?case by (simp add: steady_refl)
next
  case (Cons k ks)
  from assms [of h k] Cons [of "f h k"] show ?case
    by (auto intro: steady_trans)
qed

lemma steady_forceStop: "steady h (forceStop i h)"
  unfolding forceStop_def by (rule steady_update_conn) simp_all

lemma steady_dataTag: "steady h (h\<lparr>dataTag := t\<rparr>)"
  by (simp add: steady_def)

lemma steady_isLoading: "steady h (h\<lparr>isLoading := b\<rparr>)"
  by (simp add: steady_def)

lemma steady_data: "steady h (h\<lparr>data := d\<rparr>)"
  by (simp add: steady_def)

lemma steady_on_response: "steady h (on_response k i ok h)"
proof -
  have a: "steady h (update_conn i
      (\<lambda>cn. if bodyUsed cn then cn else cn\<lparr>json_waiter := Some k, bodyUsed := True\<rparr>) h)"
    by (rule steady_update_conn) simp_all
  have "steady (h\<lparr>dataTag := render_tag k\<rparr>) (update_conn i
      (\<lambda>cn. cn\<lparr>listeners := listeners cn @ [\<lparr>handler = k, accumulated = []\<rparr>]\<rparr>)
      (h\<lparr>dataTag := render_tag k\<rparr>))"
    by (rule steady_update_conn) simp_all
  with steady_dataTag have b: "steady h (update_conn i
      (\<lambda>cn. cn\<lparr>listeners := listeners cn @ [\<lparr>handler = k, accumulated = []\<rparr>]\<rparr>)
      (h\<lparr>dataTag := render_tag k\<rparr>))"
    by (rule steady_trans)
  from a b show ?thesis by (simp add: on_response_def steady_refl)
qed

lemma steady_on_finally: "steady h (on_finally k i h)"
  by (simp add: on_finally_def steady_forceStop steady_isLoading)

lemma steady_settle: "steady h (settle i p h)"
proof -
  let ?h1 = "update_conn i (\<lambda>cn. cn\<lparr>fetch := p, waiting := []\<rparr>) h"
  let ?ks = "waiting (conns h ! i)"
  let ?h2 = "case p of Fulfilled ok \<Rightarrow> foldl (\<lambda>s k. on_response k i ok s) ?h1 ?ks | _ \<Rightarrow> ?h1"
  have s1: "steady h ?h1" by (rule steady_update_conn) simp_all
  have "steady ?h1 ?h2"
    by (cases p) (simp_all add: steady_refl steady_foldl steady_on_response)
  with s1 have s2: "steady h ?h2" by (rule steady_trans)
  have "steady ?h2 (foldl (\<lambda>s k. on_finally k i s) ?h2 ?ks)"
    by (rule steady_foldl) (rule steady_on_finally)
  with s2 have "steady h (foldl (\<lambda>s k. on_finally k i s) ?h2 ?ks)" by (rule steady_trans)
  then show ?thesis by (simp add: settle_def Let_def)
qed

lemma steady_attach: "steady h (attach k i h)"
proof (cases "i < length (conns h)")
  case False
  then show ?thesis by (simp add: attach_def steady_refl)
next
  case True
  have a: "steady h (update_conn i (\<lambda>cn. cn\<lparr>waiting := waiting cn @ [k]\<rparr>) h)"
    by (rule steady_update_conn) simp_all
  have b: "steady h (on_finally k i (on_response k i ok h))" for ok
    using steady_on_response steady_on_finally by (rule steady_trans)
  from True a b show ?thesis
    by (cases "fetch (conns h ! i)") (simp_all add: attach_def steady_on_finally)
qed

lemma steady_on_chunk: "steady h (on_chunk rt i s h)"
proof (cases "deliver rt s (listeners (conns h ! i)) (data h)")
  case (Pair ls d)
  have "steady h (update_conn i (\<lambda>cn. cn\<lparr>listeners := ls\<rparr>) h)"
    by (rule steady_update_conn) simp_all
  then have "steady h ((update_conn i (\<lambda>cn. cn\<lparr>listeners := ls\<rparr>) h)\<lparr>data := d\<rparr>)"
    using steady_data by (rule steady_trans)
  with Pair show ?thesis by (simp add: on_chunk_def steady_refl)
qed

lemma steady_on_body: "steady h (on_body rt i v h)"
proof -
  have a: "steady h (update_conn i (\<lambda>cn. cn\<lparr>json_waiter := None\<rparr>) h)"
    by (rule steady_update_conn) simp_all
  then have "steady h ((update_conn i (\<lambda>cn. cn\<lparr>json_waiter := None\<rparr>) h)\<lparr>data := d\<rparr>)" for d
    using steady_data by (rule steady_trans)
  with a show ?thesis
    by (simp add: on_body_def steady_refl split: option.splits sum.splits)
qed

lemma steady_render: "steady h (render rt c h)"
  by (simp add: render_def steady_def split: sum.splits)

lemma steady_scheduled: "steady h (h\<lparr>scheduled := x\<rparr>)"
  by (simp add: steady_def)

lemma single_live_open:
  "single_live h \<Longrightarrow> j < length (conns h) \<Longrightarrow> \<not> closing (conns h ! j)
     \<Longrightarrow> AIRef h = Some (j, conn_tag (conns h ! j))"
  unfolding single_live_def by blast

lemma single_live_ref:
  "single_live h \<Longrightarrow> AIRef h = Some (i, t)
     \<Longrightarrow> i < length (conns h) \<and> conn_tag (conns h ! i) = t"
  unfolding single_live_def by blast

lemma single_live_steady:
  assumes live: "single_live h" and st: "steady h h'"
  shows "single_live h'"
proof -
  from st have ref: "AIRef h' = AIRef h" and len: "length (conns h') = length (conns h)"
    by (simp_all add: steady_def)
  from st have tags: "conn_tag (conns h' ! j) = conn_tag (conns h ! j)"
    and closed: "closing (conns h ! j) \<Longrightarrow> closing (conns h' ! j)"
    if "j < length (conns h)" for j
    using that by (simp_all add: steady_def)
  show ?thesis
    unfolding single_live_def
  proof (intro conjI allI impI)
    fix j
    assume j: "j < length (conns h')" and op: "\<not> closing (conns h' ! j)"
    from j len have j': "j < length (conns h)" by simp
    with op closed have "\<not> closing (conns h ! j)" by blast
    with live j' have "AIRef h = Some (j, conn_tag (conns h ! j))"
      by (rule single_live_open)
    with ref tags [OF j'] show "AIRef h' = Some (j, conn_tag (conns h' ! j))" by simp
  next
    fix i t
    assume "AIRef h' = Some (i, t)"
    with ref have "AIRef h = Some (i, t)" by simp
    with live have "i < length (conns h) \<and> conn_tag (conns h ! i) = t"
      by (rule single_live_ref)
    with len tags [of i] show "i < length (conns h')" "conn_tag (conns h' ! i) = t"
      by simp_all
  qed
qed

lemma single_live_dispatch:
  assumes live: "single_live h"
  shows "single_live (dispatch rt c loading schema h)"
proof (cases "AIRef h = None \<and> execute c \<and> length (prompt c) > 0 \<and> \<not> loading")
  case False
  then have "dispatch rt c loading schema h = h"
    unfolding dispatch_def by (rule if_not_P)
  with live show ?thesis by simp
next
  case True
  let ?h' = "h\<lparr>conns := conns h @ [new_conn rt c schema],
      AIRef := Some (length (conns h), call_tag c)\<rparr>"
  from True have eq: "dispatch rt c loading schema h = ?h'"
    unfolding dispatch_def by (rule if_P)
  have all_closed: "closing (conns h ! j)" if "j < length (conns h)" for j
  proof (rule ccontr)
    assume "\<not> closing (conns h ! j)"
    with live that have "AIRef h = Some (j, conn_tag (conns h ! j))"
      by (rule single_live_open)
    with True show False by simp
  qed
  have "single_live ?h'"
    unfolding single_live_def
  proof (intro conjI allI impI)
    fix j
    assume j: "j < length (conns ?h')" and op: "\<not> closing (conns ?h' ! j)"
    have "j = length (conns h)"
    proof (rule ccontr)
      assume "j \<noteq> length (conns h)"
      with j have "j < length (conns h)" by simp
      with op all_closed show False by (simp add: nth_append)
    qed
    then show "AIRef ?h' = Some (j, conn_tag (conns ?h' ! j))"
      by (simp add: new_conn_def)
  next
    fix i t
    assume "AIRef ?h' = Some (i, t)"
    then show "i < length (conns ?h')" "conn_tag (conns ?h' ! i) = t"
      by (auto simp: new_conn_def)
  qed
  with eq show ?thesis by simp
qed

lemma single_live_stopModel:
  assumes live: "single_live h"
  shows "single_live (stopModel h)"
proof (cases "AIRef h")
  case None
  with live show ?thesis by (simp add: stopModel_def)
next
  case (Some r)
  obtain i t where r: "r = (i, t)" by (cases r)
  from live Some r have i: "i < length (conns h)" by (simp add: single_live_ref)
  let ?h' = "(forceStop i h)\<lparr>AIRef := None\<rparr>"
  from Some r have eq: "stopModel h = ?h'" by (simp add: stopModel_def)
  have "closing (conns ?h' ! j)" if j: "j < length (conns ?h')" for j
  proof (cases "j = i")
    case True
    with i show ?thesis by (simp add: forceStop_def nth_update_conn)
  next
    case False
    from j have j': "j < length (conns h)" by (simp add: forceStop_def length_update_conn)
    have "closing (conns h ! j)"
    proof (rule ccontr)
      assume "\<not> closing (conns h ! j)"
      with live j' have "AIRef h = Some (j, conn_tag (conns h ! j))"
        by (rule single_live_open)
      with Some r False show False by simp
    qed
    with False j' show ?thesis by (simp add: forceStop_def nth_update_conn)
  qed
  then have "single_live ?h'" by (simp add: single_live_def)
  with eq show ?thesis by simp
qed

lemma single_live_runEffect:
  assumes "single_live h"
  shows "single_live (runEffect rt c loading schema h)"
proof (cases "raycastModel c \<or> \<not> execute c")
  case True
  with assms show ?thesis by (simp add: runEffect_def)
next
  case False
  let ?h1 = "(dispatch rt c loading schema h)\<lparr>isLoading := True\<rparr>"
  from assms have "single_live (dispatch rt c loading schema h)"
    by (rule single_live_dispatch)
  then have h1: "single_live ?h1" using steady_isLoading by (rule single_live_steady)
  show ?thesis
  proof (cases "AIRef ?h1")
    case None
    with False h1 show ?thesis by (simp add: runEffect_def Let_def)
  next
    case (Some r)
    obtain i t where r: "r = (i, t)" by (cases r)
    from h1 steady_attach have "single_live (attach k i ?h1)" for k
      by (rule single_live_steady)
    with False Some r show ?thesis by (simp add: runEffect_def Let_def)
  qed
qed

lemma single_live_flush: "single_live h \<Longrightarrow> single_live (flush rt h)"
proof (cases "scheduled h")
  case None
  assume "single_live h"
  with None show ?thesis by (simp add: flush_def)
next
  case (Some x)
  assume "single_live h"
  then have "single_live (h\<lparr>scheduled := None\<rparr>)"
    using steady_scheduled by (rule single_live_steady)
  then have "single_live (runEffect rt c loading schema (h\<lparr>scheduled := None\<rparr>))"
    for c loading schema
    by (rule single_live_runEffect)
  with Some show ?thesis by (cases x) (simp add: flush_def)
qed

lemma single_live_step: "single_live h \<Longrightarrow> single_live (step rt ev h)"
proof (cases ev)
  case (Render c)
  assume "single_live h"
  then have "single_live (flush rt h)" by (rule single_live_flush)
  then have "single_live (render rt c (flush rt h))"
    using steady_render by (rule single_live_steady)
  with Render show ?thesis by simp
next
  case Flush
  assume "single_live h"
  with Flush show ?thesis by (simp add: single_live_flush)
next
  case (Respond i ok)
  assume "single_live h"
  with Respond show ?thesis by (auto intro: single_live_steady steady_settle)
next
  case (Fail i)
  assume "single_live h"
  with Fail show ?thesis by (auto intro: single_live_steady steady_settle)
next
  case (Chunk i s)
  assume "single_live h"
  with Chunk show ?thesis by (auto intro: single_live_steady steady_on_chunk)
next
  case (Body i v)
  assume "single_live h"
  with Body show ?thesis by (auto intro: single_live_steady steady_on_body)
next
  case Stop
  assume "single_live h"
  with Stop show ?thesis by (simp add: single_live_stopModel)
qed

lemma single_live_run: "single_live h \<Longrightarrow> single_live (run rt evs h)"
  unfolding run_def by (induction evs arbitrary: h) (simp_all add: single_live_step)

lemma single_live_init: "single_live init_hook"
  by (simp add: single_live_def init_hook_def)

subsection \<open>When a request is sent\<close>

lemma runEffect_steady:
  assumes "AIRef h \<noteq> None \<or> raycastModel c \<or> \<not> execute c \<or> prompt c = [] \<or> loading"
  shows "steady h (runEffect rt c loading schema h)"
proof (cases "raycastModel c \<or> \<not> execute c")
  case True
  then show ?thesis by (simp add: runEffect_def steady_refl)
next
  case False
  with assms have "\<not> (AIRef h = None \<and> execute c \<and> length (prompt c) > 0 \<and> \<not> loading)"
    by auto
  then have d: "dispatch rt c loading schema h = h"
    unfolding dispatch_def by (rule if_not_P)
  let ?h1 = "h\<lparr>isLoading := True\<rparr>"
  have s1: "steady h ?h1" by (rule steady_isLoading)
  show ?thesis
  proof (cases "AIRef ?h1")
    case None
    with False d s1 show ?thesis by (simp add: runEffect_def Let_def)
  next
    case (Some r)
    obtain i t where r: "r = (i, t)" by (cases r)
    have "steady h (attach k i ?h1)" for k
      using s1 steady_attach by (rule steady_trans)
    with False d Some r show ?thesis by (simp add: runEffect_def Let_def)
  qed
qed

lemma runEffect_sends:
  assumes "AIRef h = None" and "\<not> raycastModel c" and "execute c" and "prompt c \<noteq> []"
    and "\<not> loading"
  shows "requests (runEffect rt c loading schema h) = requests h @ [sent (new_conn rt c schema)]"
proof -
  let ?h0 = "h\<lparr>conns := conns h @ [new_conn rt c schema],
      AIRef := Some (length (conns h), call_tag c)\<rparr>"
  let ?h1 = "?h0\<lparr>isLoading := True\<rparr>"
  let ?k = "\<lparr>me_tag = call_tag c, render_tag = call_tag c,
      timing = outputTiming (targetModel c), keyPath = outputKeyPath (targetModel c)\<rparr>"
  from assms have "AIRef h = None \<and> execute c \<and> length (prompt c) > 0 \<and> \<not> loading" by simp
  then have d: "dispatch rt c loading schema h = ?h0"
    unfolding dispatch_def by (rule if_P)
  from assms d have "runEffect rt c loading schema h = attach ?k (length (conns h)) ?h1"
    by (simp add: runEffect_def Let_def)
  moreover have "requests (attach ?k (length (conns h)) ?h1) = requests ?h1"
    using steady_attach by (rule steady_requests)
  moreover have "requests ?h1 = requests h @ [sent (new_conn rt c schema)]"
    by (simp add: requests_def)
  ultimately show ?thesis by simp
qed

lemma flush_requests:
  "requests (flush rt h) = requests h
   \<or> (\<exists>c loading schema. scheduled h = Some (c, loading, schema) \<and> AIRef h = None
        \<and> execute c \<and> \<not> raycastModel c \<and> prompt c \<noteq> []
        \<and> requests (flush rt h) = requests h @ [sent (new_conn rt c schema)])"
proof (cases "scheduled h")
  case None
  then show ?thesis by (simp add: flush_def)
next
  case (Some x)
  obtain c loading schema where x: "x = (c, loading, schema)" by (cases x)
  let ?h = "h\<lparr>scheduled := None\<rparr>"
  from Some x have f: "flush rt h = runEffect rt c loading schema ?h"
    by (simp add: flush_def)
  show ?thesis
  proof (cases "AIRef h \<noteq> None \<or> raycastModel c \<or> \<not> execute c \<or> prompt c = [] \<or> loading")
    case True
    then have "steady ?h (runEffect rt c loading schema ?h)"
      by (intro runEffect_steady) simp
    then have "requests (runEffect rt c loading schema ?h) = requests ?h"
      by (rule steady_requests)
    with f show ?thesis by (simp add: requests_def)
  next
    case False
    then have "AIRef h = None" by (cases "AIRef h") simp_all
    with False have c: "AIRef ?h = None" "\<not> raycastModel c" "execute c" "prompt c \<noteq> []"
      "\<not> loading"
      by simp_all
    then have "requests (runEffect rt c loading schema ?h)
        = requests ?h @ [sent (new_conn rt c schema)]"
      by (rule runEffect_sends)
    with f have "requests (flush rt h) = requests h @ [sent (new_conn rt c schema)]"
      by (simp add: requests_def)
    with c Some x show ?thesis by auto
  qed
qed

lemma flush_keeps_ref:
  assumes "AIRef h = Some r"
  shows "steady h (flush rt h)"
proof (cases "scheduled h")
  case None
  then show ?thesis by (simp add: flush_def steady_refl)
next
  case (Some x)
  obtain c loading schema where x: "x = (c, loading, schema)" by (cases x)
  let ?h = "h\<lparr>scheduled := None\<rparr>"
  from assms have "steady ?h (runEffect rt c loading schema ?h)"
    by (intro runEffect_steady) simp
  with steady_scheduled have "steady h (runEffect rt c loading schema ?h)"
    by (rule steady_trans)
  with Some x show ?thesis by (simp add: flush_def)
qed

lemma step_steady:
  "steady h (step rt (Respond i ok) h)" "steady h (step rt (Fail i) h)"
  "steady h (step rt (Chunk i s) h)" "steady h (step rt (Body i v) h)"
  by (simp_all add: steady_refl steady_settle steady_on_chunk steady_on_body)

lemma step_requests:
  "requests (step rt ev h) = requests h
   \<or> (\<exists>c loading schema. scheduled h = Some (c, loading, schema) \<and> AIRef h = None
        \<and> execute c \<and> \<not> raycastModel c \<and> prompt c \<noteq> []
        \<and> requests (step rt ev h) = requests h @ [sent (new_conn rt c schema)])"
proof (cases ev)
  case (Render c)
  have "requests (render rt c (flush rt h)) = requests (flush rt h)"
    using steady_render by (rule steady_requests)
  with flush_requests [of rt h] Render show ?thesis by auto
next
  case Flush
  with flush_requests [of rt h] show ?thesis by simp
next
  case (Respond i ok)
  with step_steady(1) [of h rt i ok] show ?thesis by (simp add: steady_requests)
next
  case (Fail i)
  with step_steady(2) [of h rt i] show ?thesis by (simp add: steady_requests)
next
  case (Chunk i s)
  with step_steady(3) [of h rt i s] show ?thesis by (simp add: steady_requests)
next
  case (Body i v)
  with step_steady(4) [of h rt i v] show ?thesis by (simp add: steady_requests)
next
  case Stop
  have "requests (stopModel h) = requests h"
  proof (cases "AIRef h")
    case None
    then show ?thesis by (simp add: stopModel_def)
  next
    case (Some r)
    obtain i t where "r = (i, t)" by (cases r)
    with Some have "stopModel h = (forceStop i h)\<lparr>AIRef := None\<rparr>"
      by (simp add: stopModel_def)
    moreover have "requests ((forceStop i h)\<lparr>AIRef := None\<rparr>) = requests (forceStop i h)"
      by (simp add: requests_def)
    moreover have "requests (forceStop i h) = requests h"
      using steady_forceStop by (rule steady_requests)
    ultimately show ?thesis by simp
  qed
  with Stop show ?thesis by simp
qed

lemma step_keeps_ref:
  assumes "AIRef h = Some r" and "ev \<noteq> Stop"
  shows "AIRef (step rt ev h) = Some r"
proof -
  have "steady h (step rt ev h)"
  proof (cases ev)
    case (Render c)
    from assms(1) have "steady h (flush rt h)" by (rule flush_keeps_ref)
    then have "steady h (render rt c (flush rt h))"
      using steady_render by (rule steady_trans)
    with Render show ?thesis by simp
  next
    case Flush
    with assms(1) show ?thesis by (simp add: flush_keeps_ref)
  next
    case Stop
    with assms(2) show ?thesis by simp
  next
    case (Respond i ok)
    show ?thesis unfolding Respond by (rule step_steady)
  next
    case (Fail i)
    show ?thesis unfolding Fail by (rule step_steady)
  next
    case (Chunk i s)
    show ?thesis unfolding Chunk by (rule step_steady)
  next
    case (Body i v)
    show ?thesis unfolding Body by (rule step_steady)
  qed
  with assms(1) show ?thesis by (simp add: steady_def)
qed

text \<open>
  \<^bold>\<open>C8.\<close> A request is live from its dispatch until \<^verbatim>\<open>forceStop\<close> or \<^verbatim>\<open>stopModel\<close> asks
  to close its body. In every state that the hook reaches from its first call, by
  whatever events:
  \<^item> at most one request is live, so at most one for every tag;
  \<^item> while \<^verbatim>\<open>AIRef\<close> holds a request, no event sends another one, and every event but
    \<^verbatim>\<open>stopModel\<close> keeps the reference: a new call of the hook and its effect reuse it;
  \<^item> an event sends a request only as the effect of a call that enabled execution,
    whose model is not the managed service and whose prompt is not empty; the
    request is the one of lines 155 to 175 for that call.
\<close>

theorem single_dispatch:
  assumes "h = run rt evs init_hook"
  shows "(\<forall>i j. i < length (conns h) \<and> j < length (conns h)
            \<and> \<not> closing (conns h ! i) \<and> \<not> closing (conns h ! j) \<longrightarrow> i = j)
     \<and> (\<forall>i t. AIRef h = Some (i, t) \<longrightarrow>
            i < length (conns h) \<and> conn_tag (conns h ! i) = t
            \<and> requests (step rt ev h) = requests h
            \<and> (ev \<noteq> Stop \<longrightarrow> AIRef (step rt ev h) = Some (i, t)))
     \<and> (requests (step rt ev h) \<noteq> requests h \<longrightarrow>
            (\<exists>c loading schema. scheduled h = Some (c, loading, schema)
               \<and> execute c \<and> \<not> raycastModel c \<and> prompt c \<noteq> []
               \<and> requests (step rt ev h) = requests h @ [sent (new_conn rt c schema)]))"
proof (intro conjI allI impI)
  from assms have live: "single_live h"
    by (simp add: single_live_run single_live_init)
  {
    fix i j
    assume a: "i < length (conns h) \<and> j < length (conns h)
        \<and> \<not> closing (conns h ! i) \<and> \<not> closing (conns h ! j)"
    with live have "AIRef h = Some (i, conn_tag (conns h ! i))"
      by (simp add: single_live_open)
    moreover from a live have "AIRef h = Some (j, conn_tag (conns h ! j))"
      by (simp add: single_live_open)
    ultimately show "i = j" by simp
  }
  {
    fix i t
    assume r: "AIRef h = Some (i, t)"
    with live show "i < length (conns h)" "conn_tag (conns h ! i) = t"
      by (simp_all add: single_live_ref)
    from r step_requests [of rt ev h] show "requests (step rt ev h) = requests h"
      by auto
    assume "ev \<noteq> Stop"
    with r show "AIRef (step rt ev h) = Some (i, t)" by (rule step_keeps_ref)
  }
  assume "requests (step rt ev h) \<noteq> requests h"
  with step_requests [of rt ev h]
  show "\<exists>c loading schema. scheduled h = Some (c, loading, schema)
      \<and> execute c \<and> \<not> raycastModel c \<and> prompt c \<noteq> []
      \<and> requests (step rt ev h) = requests h @ [sent (new_conn rt c schema)]"
    by blast
qed

theorem single_dispatch_witness:
  "AIRef (run example_runtime [Render example_call, Flush] init_hook) = Some (0, ''hi'')
   \<and> \<not> closing (conns (run example_runtime [Render example_call, Flush] init_hook) ! 0)
   \<and> requests (step example_runtime (Render (example_call\<lparr>prompt := ''bye''\<rparr>))
         (run example_runtime [Render example_call, Flush] init_hook))
       = requests (run example_runtime [Render example_call, Flush] init_hook)
   \<and> AIRef (step example_runtime (Render (example_call\<lparr>prompt := ''bye''\<rparr>))
         (run example_runtime [Render example_call, Flush] init_hook)) = Some (0, ''hi'')
   \<and> requests (step example_runtime Flush (run example_runtime [Render example_call] init_hook))
       \<noteq> requests (run example_runtime [Render example_call] init_hook)
   \<and> (\<exists>c loading schema.
         scheduled (run example_runtime [Render example_call] init_hook)
           = Some (c, loading, schema)
         \<and> execute c \<and> \<not> raycastModel c \<and> prompt c \<noteq> []
         \<and> requests (step example_runtime Flush
               (run example_runtime [Render example_call] init_hook))
             = requests (run example_runtime [Render example_call] init_hook)
               @ [sent (new_conn example_runtime c schema)])"
proof -
  let ?h0 = "run example_runtime [Render example_call] init_hook"
  let ?h1 = "run example_runtime [Render example_call, Flush] init_hook"
  let ?ev = "Render (example_call\<lparr>prompt := ''bye''\<rparr>)"
  have r: "AIRef ?h1 = Some (0, ''hi'')" by code_simp
  have op: "\<not> closing (conns ?h1 ! 0)" by code_simp
  have ne: "requests (step example_runtime Flush ?h0) \<noteq> requests ?h0" by code_simp
  have nz: "(0::nat) \<noteq> 1" by simp
  from single_dispatch [OF refl, of example_runtime "[Render example_call, Flush]" ?ev] r
  have "requests (step example_runtime ?ev ?h1) = requests ?h1
      \<and> (?ev \<noteq> Stop \<longrightarrow> AIRef (step example_runtime ?ev ?h1) = Some (0, ''hi''))"
    by blast
  then have reuse: "requests (step example_runtime ?ev ?h1) = requests ?h1"
    "AIRef (step example_runtime ?ev ?h1) = Some (0, ''hi'')"
    by simp_all
  from single_dispatch [OF refl, of example_runtime "[Render example_call]" Flush] ne
  have "\<exists>c loading schema. scheduled ?h0 = Some (c, loading, schema)
      \<and> execute c \<and> \<not> raycastModel c \<and> prompt c \<noteq> []
      \<and> requests (step example_runtime Flush ?h0)
          = requests ?h0 @ [sent (new_conn example_runtime c schema)]"
    by blast
  with r op reuse ne show ?thesis by blast
qed

subsection \<open>What the hook never writes\<close>

lemma scheduled_forceStop: "scheduled (forceStop i h) = scheduled h"
  by (simp add: forceStop_def update_conn_fields)

lemma scheduled_on_response: "scheduled (on_response k i ok h) = scheduled h"
  by (simp add: on_response_def update_conn_fields)

lemma scheduled_on_finally: "scheduled (on_finally k i h) = scheduled h"
  by (simp add: on_finally_def scheduled_forceStop)

lemma scheduled_attach: "scheduled (attach k i h) = scheduled h"
  by (cases "fetch (conns h ! i)")
    (simp_all add: attach_def update_conn_fields scheduled_on_finally scheduled_on_response)

lemma scheduled_runEffect: "scheduled (runEffect rt c loading schema h) = scheduled h"
proof (cases "raycastModel c \<or> \<not> execute c")
  case True
  then show ?thesis by (simp add: runEffect_def)
next
  case False
  let ?h1 = "(dispatch rt c loading schema h)\<lparr>isLoading := True\<rparr>"
  have s: "scheduled ?h1 = scheduled h" by (simp add: dispatch_def)
  show ?thesis
  proof (cases "AIRef ?h1")
    case None
    with False s show ?thesis by (simp add: runEffect_def Let_def)
  next
    case (Some r)
    obtain i t where "r = (i, t)" by (cases r)
    with False s Some show ?thesis by (simp add: runEffect_def Let_def scheduled_attach)
  qed
qed

lemma scheduled_flush: "scheduled (flush rt h) = None"
proof (cases "scheduled h")
  case None
  then show ?thesis by (simp add: flush_def)
next
  case (Some x)
  obtain c loading schema where "x = (c, loading, schema)" by (cases x)
  with Some show ?thesis by (simp add: flush_def scheduled_runEffect)
qed

lemma error_runEffect: "error (runEffect rt c loading schema h) = error h"
proof (cases "raycastModel c \<or> \<not> execute c")
  case True
  then show ?thesis by (simp add: runEffect_def)
next
  case False
  let ?h1 = "(dispatch rt c loading schema h)\<lparr>isLoading := True\<rparr>"
  have s: "error ?h1 = error h" by (simp add: dispatch_def)
  show ?thesis
  proof (cases "AIRef ?h1")
    case None
    with False s show ?thesis by (simp add: runEffect_def Let_def)
  next
    case (Some r)
    obtain i t where r: "r = (i, t)" by (cases r)
    have "steady ?h1 (attach k i ?h1)" for k by (rule steady_attach)
    then have "error (attach k i ?h1) = error ?h1" for k by (simp add: steady_def)
    with False s Some r show ?thesis by (simp add: runEffect_def Let_def)
  qed
qed

lemma error_flush: "error (flush rt h) = error h"
proof (cases "scheduled h")
  case None
  then show ?thesis by (simp add: flush_def)
next
  case (Some x)
  obtain c loading schema where "x = (c, loading, schema)" by (cases x)
  with Some show ?thesis by (simp add: flush_def error_runEffect)
qed

lemma error_render: "error (render rt c h) = error h"
  by (simp add: render_def split: sum.splits)

lemma error_stopModel: "error (stopModel h) = error h"
  by (simp add: stopModel_def forceStop_def update_conn_fields split: option.splits)

lemma error_step: "error (step rt ev h) = error h"
proof (cases ev)
  case (Render c)
  then show ?thesis by (simp add: error_render error_flush)
next
  case Flush
  then show ?thesis by (simp add: error_flush)
next
  case (Respond i ok)
  from step_steady(1) [of h rt i ok] show ?thesis unfolding Respond by (simp add: steady_def)
next
  case (Fail i)
  from step_steady(2) [of h rt i] show ?thesis unfolding Fail by (simp add: steady_def)
next
  case (Chunk i s)
  from step_steady(3) [of h rt i s] show ?thesis unfolding Chunk by (simp add: steady_def)
next
  case (Body i v)
  from step_steady(4) [of h rt i v] show ?thesis unfolding Body by (simp add: steady_def)
next
  case Stop
  then show ?thesis by (simp add: error_stopModel)
qed

lemma error_run: "error (run rt evs h) = error h"
  unfolding run_def by (induction evs arbitrary: h) (simp_all add: error_step)

lemma modelSchema_raises:
  "\<not> raycastModel c \<Longrightarrow> JSON_parse rt (substitute c (inputSchema (targetModel c))) = None
     \<Longrightarrow> modelSchema rt c = Inl SyntaxError"
  by (simp add: modelSchema_def)

section \<open>Errors of configuration\<close>

text \<open>
  \<^bold>\<open>C7\<close>, as the code has it. For every call that returns (lines 126 and 146 raise
  nothing):
  \<^item> when the base prompt and the prompt are both empty, the result is the error
    \<^verbatim>\<open>Prompt cannot be empty\<close> with \<^verbatim>\<open>isLoading\<close> false, and the effect of the call
    sends no request, in whatever state it runs;
  \<^item> when the prompts are not both empty, the registry is not loading and the
    endpoint of the resolved model is neither one of the accepted names of the managed
    service nor a string that contains a colon, the result is the error
    \<^verbatim>\<open>Invalid Endpoint\<close> with \<^verbatim>\<open>isLoading\<close> false.
\<close>

theorem configuration_guards:
  "(basePrompt c = [] \<and> prompt c = [] \<and> modelSchema rt c = Inr schema \<longrightarrow>
      useModel rt c h
        = Inr \<lparr>data = JStr [], isLoading = False,
               error = Some ''Prompt cannot be empty'', dataTag = []\<rparr>
      \<and> requests (runEffect rt c loading schema h') = requests h')
   \<and> (\<not> (basePrompt c = [] \<and> prompt c = []) \<and> \<not> registryLoading c
      \<and> toLowerCase (endpoint (targetModel c)) \<notin> set validRaycastAIReps
      \<and> \<not> js_includes (endpoint (targetModel c)) '':''
      \<and> modelSchema rt c = Inr schema \<longrightarrow>
      useModel rt c h
        = Inr \<lparr>data = JStr [], isLoading = False,
               error = Some ''Invalid Endpoint'', dataTag = []\<rparr>)"
proof (intro conjI impI)
  assume a: "basePrompt c = [] \<and> prompt c = [] \<and> modelSchema rt c = Inr schema"
  then show "useModel rt c h
      = Inr \<lparr>data = JStr [], isLoading = False,
             error = Some ''Prompt cannot be empty'', dataTag = []\<rparr>"
    by (simp add: useModel_def)
  from a have "steady h' (runEffect rt c loading schema h')"
    by (intro runEffect_steady) simp
  then show "requests (runEffect rt c loading schema h') = requests h'"
    by (rule steady_requests)
next
  assume "\<not> (basePrompt c = [] \<and> prompt c = []) \<and> \<not> registryLoading c
      \<and> toLowerCase (endpoint (targetModel c)) \<notin> set validRaycastAIReps
      \<and> \<not> js_includes (endpoint (targetModel c)) '':''
      \<and> modelSchema rt c = Inr schema"
  then show "useModel rt c h
      = Inr \<lparr>data = JStr [], isLoading = False,
             error = Some ''Invalid Endpoint'', dataTag = []\<rparr>"
    by (simp add: useModel_def)
qed

theorem configuration_guards_witness:
  "modelSchema example_runtime (example_call\<lparr>prompt := []\<rparr>)
     = Inr (JObj [(''prompt'', JStr [])])
   \<and> useModel example_runtime (example_call\<lparr>prompt := []\<rparr>) init_hook
     = Inr \<lparr>data = JStr [], isLoading = False,
            error = Some ''Prompt cannot be empty'', dataTag = []\<rparr>
   \<and> requests (runEffect example_runtime (example_call\<lparr>prompt := []\<rparr>) False
         (JObj [(''prompt'', JStr [])]) init_hook) = requests init_hook
   \<and> modelSchema example_runtime
         (example_call\<lparr>registry := [example_model\<lparr>endpoint := ''localhost''\<rparr>]\<rparr>)
     = Inr (JObj [(''prompt'', JStr ''hi'')])
   \<and> useModel example_runtime
         (example_call\<lparr>registry := [example_model\<lparr>endpoint := ''localhost''\<rparr>]\<rparr>) init_hook
     = Inr \<lparr>data = JStr [], isLoading = False,
            error = Some ''Invalid Endpoint'', dataTag = []\<rparr>"
proof -
  let ?c1 = "example_call\<lparr>prompt := []\<rparr>"
  let ?c2 = "example_call\<lparr>registry := [example_model\<lparr>endpoint := ''localhost''\<rparr>]\<rparr>"
  have a1: "basePrompt ?c1 = [] \<and> prompt ?c1 = []
      \<and> modelSchema example_runtime ?c1 = Inr (JObj [(''prompt'', JStr [])])"
    by code_simp
  have a2: "\<not> (basePrompt ?c2 = [] \<and> prompt ?c2 = []) \<and> \<not> registryLoading ?c2
      \<and> toLowerCase (endpoint (targetModel ?c2)) \<notin> set validRaycastAIReps
      \<and> \<not> js_includes (endpoint (targetModel ?c2)) '':''
      \<and> modelSchema example_runtime ?c2 = Inr (JObj [(''prompt'', JStr ''hi'')])"
    by code_simp
  from configuration_guards
    [of ?c1 example_runtime "JObj [(''prompt'', JStr [])]" init_hook False init_hook] a1
  have "useModel example_runtime ?c1 init_hook
      = Inr \<lparr>data = JStr [], isLoading = False,
             error = Some ''Prompt cannot be empty'', dataTag = []\<rparr>
    \<and> requests (runEffect example_runtime ?c1 False (JObj [(''prompt'', JStr [])]) init_hook)
      = requests init_hook"
    by blast
  moreover
  from configuration_guards [of ?c2 example_runtime "JObj [(''prompt'', JStr ''hi'')]" init_hook] a2
  have "useModel example_runtime ?c2 init_hook
      = Inr \<lparr>data = JStr [], isLoading = False,
             error = Some ''Invalid Endpoint'', dataTag = []\<rparr>"
    by blast
  ultimately show ?thesis using a1 a2 by blast
qed

text \<open>
  The claim of the specification fails while the registry is loading: line 262 returns
  the loading state before line 274 looks at the endpoint. Here the caller gives an
  override whose endpoint is \<^verbatim>\<open>localhost\<close> and whose template is \<^verbatim>\<open>{}\<close>.
\<close>

theorem loading_hides_invalid_endpoint_counterexample:
  "toLowerCase (endpoint (targetModel (example_call\<lparr>registryLoading := True,
       modelOverride := Some (example_model\<lparr>endpoint := ''localhost'', inputSchema := ''{}''\<rparr>)\<rparr>)))
     \<notin> set validRaycastAIReps
   \<and> \<not> js_includes (endpoint (targetModel (example_call\<lparr>registryLoading := True,
       modelOverride := Some (example_model\<lparr>endpoint := ''localhost'', inputSchema := ''{}''\<rparr>)\<rparr>)))
       '':''
   \<and> useModel example_runtime (example_call\<lparr>registryLoading := True,
       modelOverride := Some (example_model\<lparr>endpoint := ''localhost'', inputSchema := ''{}''\<rparr>)\<rparr>)
       init_hook
     = Inr \<lparr>data = JStr [], isLoading = True, error = None, dataTag = ''hi''\<rparr>"
  by code_simp

text \<open>
  \<^bold>\<open>C6\<close>, as the code has it. For every call whose model is not the managed service and
  whose template, after the substitution, is no JSON text, the call returns no result:
  the \<^verbatim>\<open>SyntaxError\<close> of line 126 leaves the hook. The call schedules no effect, so it
  sends no request. The hook never writes its state variable \<^verbatim>\<open>error\<close>; when a call
  returns, its field \<^verbatim>\<open>error\<close> is empty, or one of the two messages of lines 257 and 287,
  or the error of the managed service.
\<close>

theorem template_error_raises:
  "(\<not> raycastModel c \<and> JSON_parse rt (substitute c (inputSchema (targetModel c))) = None \<longrightarrow>
      useModel rt c h = Inl SyntaxError
      \<and> scheduled (step rt (Render c) h) = None
      \<and> requests (step rt (Render c) h) = requests (flush rt h))
   \<and> error (run rt evs init_hook) = None
   \<and> (useModel rt c (run rt evs init_hook) = Inr r \<longrightarrow>
        error r = None \<or> error r = Some ''Prompt cannot be empty''
        \<or> error r = Some ''Invalid Endpoint'' \<or> (canAccessAI c \<and> error r = error (useAI c)))"
proof (intro conjI impI)
  assume "\<not> raycastModel c \<and> JSON_parse rt (substitute c (inputSchema (targetModel c))) = None"
  then have m: "modelSchema rt c = Inl SyntaxError" by (simp add: modelSchema_raises)
  then show "useModel rt c h = Inl SyntaxError" by (simp add: useModel_def)
  from m have "render rt c (flush rt h) = flush rt h" by (simp add: render_def)
  then show "scheduled (step rt (Render c) h) = None"
    "requests (step rt (Render c) h) = requests (flush rt h)"
    by (simp_all add: scheduled_flush)
next
  show e: "error (run rt evs init_hook) = None"
    by (simp add: error_run init_hook_def)
  assume "useModel rt c (run rt evs init_hook) = Inr r"
  with e show "error r = None \<or> error r = Some ''Prompt cannot be empty''
      \<or> error r = Some ''Invalid Endpoint'' \<or> (canAccessAI c \<and> error r = error (useAI c))"
    by (auto simp: useModel_def res_def the_view_def split: sum.splits if_splits)
qed

theorem template_error_raises_witness:
  "\<not> raycastModel (example_call\<lparr>registry := [example_model\<lparr>inputSchema := ''{''\<rparr>]\<rparr>)
   \<and> JSON_parse example_runtime
        (substitute (example_call\<lparr>registry := [example_model\<lparr>inputSchema := ''{''\<rparr>]\<rparr>)
           (inputSchema (targetModel
              (example_call\<lparr>registry := [example_model\<lparr>inputSchema := ''{''\<rparr>]\<rparr>)))) = None
   \<and> useModel example_runtime
        (example_call\<lparr>registry := [example_model\<lparr>inputSchema := ''{''\<rparr>]\<rparr>) init_hook
       = Inl SyntaxError
   \<and> scheduled (step example_runtime
        (Render (example_call\<lparr>registry := [example_model\<lparr>inputSchema := ''{''\<rparr>]\<rparr>)) init_hook)
       = None
   \<and> useModel example_runtime example_call (run example_runtime [] init_hook)
       = Inr \<lparr>data = JStr [], isLoading = False, error = None, dataTag = []\<rparr>"
proof -
  let ?c = "example_call\<lparr>registry := [example_model\<lparr>inputSchema := ''{''\<rparr>]\<rparr>"
  have a: "\<not> raycastModel ?c
      \<and> JSON_parse example_runtime (substitute ?c (inputSchema (targetModel ?c))) = None"
    by code_simp
  have b: "useModel example_runtime example_call (run example_runtime [] init_hook)
      = Inr \<lparr>data = JStr [], isLoading = False, error = None, dataTag = []\<rparr>"
    by code_simp
  from template_error_raises [of ?c example_runtime init_hook] a
  have "useModel example_runtime ?c init_hook = Inl SyntaxError
      \<and> scheduled (step example_runtime (Render ?c) init_hook) = None"
    by blast
  with a b show ?thesis by blast
qed

text \<open>
  The claim of the specification, that the error reaches the caller in the field
  \<^verbatim>\<open>error\<close> of the result and that nothing is raised, fails for the template \<^verbatim>\<open>{\<close>.
\<close>

theorem template_error_counterexample:
  "useModel example_runtime
     (example_call\<lparr>registry := [example_model\<lparr>inputSchema := ''{''\<rparr>]\<rparr>) init_hook
     = Inl SyntaxError"
  by code_simp

section \<open>Stale requests\<close>

text \<open>
  The effect that sends a request gives its callbacks the tag of the request as
  \<^verbatim>\<open>me.tag\<close> and the same tag as \<^verbatim>\<open>basePrompt + prompt + input\<close>: the two sides of the
  tests of lines 210 and 221 are constants of one call of the hook.
\<close>

lemma dispatching_closure:
  assumes "AIRef h = None" and "\<not> raycastModel c" and "execute c" and "prompt c \<noteq> []"
    and "\<not> loading"
  shows "conns (runEffect rt c loading schema h)
     = conns h @ [(new_conn rt c schema)
         \<lparr>waiting := [\<lparr>me_tag = call_tag c, render_tag = call_tag c,
                       timing = outputTiming (targetModel c),
                       keyPath = outputKeyPath (targetModel c)\<rparr>]\<rparr>]"
proof -
  from assms have "AIRef h = None \<and> execute c \<and> length (prompt c) > 0 \<and> \<not> loading" by simp
  then have "dispatch rt c loading schema h
      = h\<lparr>conns := conns h @ [new_conn rt c schema],
          AIRef := Some (length (conns h), call_tag c)\<rparr>"
    unfolding dispatch_def by (rule if_P)
  with assms show ?thesis
    by (simp add: runEffect_def Let_def attach_def update_conn_def new_conn_def)
qed

text \<open>
  A handler that a later run of the effect puts on the body of an older request sees two
  different tags: it never writes \<^verbatim>\<open>data\<close>, and the callback of line 220 of that run
  asks to close the body and leaves \<^verbatim>\<open>isLoading\<close> as it is.
\<close>

lemma stale_handler_keeps_data:
  "me_tag k \<noteq> render_tag k \<Longrightarrow> snd (handle_chunk rt k st chunk) = snd st"
proof -
  assume stale: "me_tag k \<noteq> render_tag k"
  have line: "snd (handle_line rt k s l) = snd s" for s l
    using stale by (simp add: handle_line_def split: option.splits sum.splits)
  have "snd (foldl (handle_line rt k) s ls) = snd s" for s ls
    by (induction ls arbitrary: s) (simp_all add: line)
  then show ?thesis by (simp add: handle_chunk_def)
qed

lemma stale_finally_closes:
  "me_tag k \<noteq> render_tag k \<Longrightarrow> i < length (conns h)
     \<Longrightarrow> closing (conns (on_finally k i h) ! i)
         \<and> isLoading (on_finally k i h) = isLoading h"
  by (simp add: on_finally_def forceStop_def nth_update_conn update_conn_fields)

definition stale_events :: "event list" where
  "stale_events =
     [Render example_call, Flush, Respond 0 True,
      Chunk 0 ''data: {\"text\": \"Hel\"}'',
      Render (example_call\<lparr>prompt := ''bye''\<rparr>)]"

text \<open>
  \<^bold>\<open>C1.\<close> A chunk of a stale request changes \<^verbatim>\<open>data\<close>. The hook is called with the
  prompt \<^verbatim>\<open>hi\<close>, its effect sends the request, the response arrives and a first chunk
  brings \<^verbatim>\<open>Hel\<close>. Then the caller calls the hook with the prompt \<^verbatim>\<open>bye\<close>: the tag of
  the request in flight is no longer the tag of the inputs. A second chunk of the
  request arrives before the effect of the new call has run; the handler of line 196
  compares \<^verbatim>\<open>hi\<close> with \<^verbatim>\<open>hi\<close> and writes \<^verbatim>\<open>Hello\<close> to \<^verbatim>\<open>data\<close>, which the next call returns.
\<close>

theorem stale_chunk_changes_data:
  "AIRef (run example_runtime stale_events init_hook) = Some (0, ''hi'')
   \<and> call_tag (example_call\<lparr>prompt := ''bye''\<rparr>) = ''bye''
   \<and> \<not> closing (conns (run example_runtime stale_events init_hook) ! 0)
   \<and> data (run example_runtime stale_events init_hook) = JStr ''Hel''
   \<and> data (step example_runtime (Chunk 0 ''data: {\"text\": \"lo\"}'')
        (run example_runtime stale_events init_hook)) = JStr ''Hello''
   \<and> useModel example_runtime (example_call\<lparr>prompt := ''bye''\<rparr>)
        (step example_runtime (Chunk 0 ''data: {\"text\": \"lo\"}'')
           (run example_runtime stale_events init_hook))
      = Inr \<lparr>data = JStr ''Hello'', isLoading = False, error = None, dataTag = ''hi''\<rparr>"
  by code_simp

end
